theory Spec2Isabelle
  imports Complex_Main "HOL-Library.Multiset" "HOL-Library.Product_Lexorder"
begin

section \<open>JavaScript values\<close>

text \<open>
  The solver (class \<open>GA\<close>) and the cost-table service are TypeScript. Numbers that hold
  node indices, loci and array positions are modelled as \<open>int\<close>; costs are modelled as
  \<open>real\<close> (the tables hold finite durations or truncated distances). A fitness is the
  result of a division \<open>1 / x\<close>, which in JavaScript is \<open>Infinity\<close> at \<open>x = 0\<close>, so
  fitness values and the costs read back from them are of type \<open>number\<close> below.
  Rounding of doubles, NaN and negative zero are outside the model.
\<close>

datatype error = AppError nat string | PlainError string | TypeError | RangeError | Unmodelled

datatype number = Num real | Infinity

text \<open>\<open>1 / x\<close> on a number.\<close>

fun one_over :: "number \<Rightarrow> number" where
  "one_over (Num x) = (if x = 0 then Infinity else Num (1 / x))"
| "one_over Infinity = Num 0"

text \<open>\<open>a < b\<close> on numbers; \<open>a > b\<close> is \<open>num_less b a\<close>.\<close>

fun num_less :: "number \<Rightarrow> number \<Rightarrow> bool" where
  "num_less (Num a) (Num b) = (a < b)"
| "num_less (Num a) Infinity = True"
| "num_less Infinity b = False"

text \<open>\<open>!x\<close> for a number that may be undefined: true for undefined and for 0.\<close>

fun js_not :: "number option \<Rightarrow> bool" where
  "js_not None = True"
| "js_not (Some x) = (x = Num 0)"

text \<open>\<open>xs[i]\<close>: \<open>None\<close> stands for \<open>undefined\<close>, the value of a read outside the array.\<close>

definition js_nth :: "'a list \<Rightarrow> int \<Rightarrow> 'a option" where
  "js_nth xs i = (if 0 \<le> i \<and> i < int (length xs) then Some (xs ! nat i) else None)"

text \<open>\<open>xs.indexOf(v)\<close>: the first position holding \<open>v\<close>, or \<open>-1\<close>.\<close>

fun js_indexOf :: "'a list \<Rightarrow> 'a \<Rightarrow> int" where
  "js_indexOf [] v = -1"
| "js_indexOf (x # xs) v =
     (if x = v then 0 else (let i = js_indexOf xs v in if i < 0 then -1 else i + 1))"

text \<open>
  \<open>xs.splice(start, deleteCount, ...items)\<close>, giving the array after the call: a negative
  \<open>start\<close> counts from the end, and both arguments are clamped to the array.
\<close>

definition js_splice :: "'a list \<Rightarrow> int \<Rightarrow> int \<Rightarrow> 'a list \<Rightarrow> 'a list" where
  "js_splice xs start deleteCount items =
     (let len = int (length xs);
          s = (if start < 0 then max (len + start) 0 else min start len);
          d = min (max deleteCount 0) (len - s)
      in take (nat s) xs @ items @ drop (nat (s + d)) xs)"

text \<open>\<open>xs.slice(from, to)\<close>: a negative bound counts from the end.\<close>

definition js_slice :: "'a list \<Rightarrow> int \<Rightarrow> int \<Rightarrow> 'a list" where
  "js_slice xs from to =
     (let len = int (length xs);
          f = (if from < 0 then max (len + from) 0 else min from len);
          t = (if to < 0 then max (len + to) 0 else min to len)
      in take (nat (t - f)) (drop (nat f) xs))"

text \<open>
  A \<open>Set\<close> is the list of its members in insertion order, without repetition.
  \<open>set_add\<close> is \<open>s.add(x)\<close> and \<open>new_Set\<close> is \<open>new Set(xs)\<close>.
\<close>

definition set_add :: "'a list \<Rightarrow> 'a \<Rightarrow> 'a list" where
  "set_add s x = (if x \<in> set s then s else s @ [x])"

definition new_Set :: "'a list \<Rightarrow> 'a list" where
  "new_Set xs = foldl set_add [] xs"

text \<open>
  A \<open>Map\<close> is the list of its entries in insertion order, with one entry for each key.
  \<open>map_set\<close> is \<open>m.set(k, v)\<close>: the value of a key already present is overwritten in place.
\<close>

fun map_set :: "('k \<times> 'v) list \<Rightarrow> 'k \<Rightarrow> 'v \<Rightarrow> ('k \<times> 'v) list" where
  "map_set [] k v = [(k, v)]"
| "map_set ((k', v') # m) k v = (if k' = k then (k, v) # m else (k', v') # map_set m k v)"

definition new_Map :: "('k \<times> 'v) list \<Rightarrow> ('k \<times> 'v) list" where
  "new_Map es = foldl (\<lambda>m (k, v). map_set m k v) [] es"

definition map_has :: "('k \<times> 'v) list \<Rightarrow> 'k \<Rightarrow> bool" where
  "map_has m k = (k \<in> fst ` set m)"

section \<open>Types of the genetic algorithm\<close>

text \<open>
  \<open>CostTable = [origin, destination, cost][]\<close>. A \<open>Chromosome\<close> is a \<open>Set<number>\<close>; a
  \<open>ChromosomeStr\<close> is the JSON text of the array of its genes, which \<open>chrToStr\<close> writes and
  \<open>strToChr\<close> reads back. The text of an array of integers determines the array and is
  determined by it, so a \<open>ChromosomeStr\<close> is modelled by the array itself.
\<close>

type_synonym cost = real
type_synonym costTable = "(int \<times> int \<times> cost) list"
type_synonym chromosome = "int list"
type_synonym chromosomeStr = "int list"
type_synonym fitness = number
type_synonym population = "chromosomeStr list"
type_synonym evaluatedPopulation = "(chromosomeStr \<times> fitness) list"

definition chrToStr :: "int list \<Rightarrow> chromosomeStr" where
  "chrToStr chromosome = chromosome"

definition strToChr :: "chromosomeStr \<Rightarrow> chromosome" where
  "strToChr chromosome = new_Set chromosome"

record configs =
  dimension :: int
  fixedOriginIndex :: "int option"
  returnToOrigin :: "bool option"
  populationSize :: "int option"
  maxGens :: "int option"
  maxChrAge :: "int option"
  eliteCount :: "int option"

text \<open>The fields of a \<open>GA\<close> object that the methods below read.\<close>

record ga =
  costTable :: costTable
  configs :: configs
  isOriginFixed :: bool
  returnToOriginFlag :: bool
  populationSizeField :: int
  isProblemLarge :: bool
  eliteCountField :: int
  maxGensField :: int
  maxChromosomeAge :: int

definition POPULATION_SIZE :: int where
  "POPULATION_SIZE = 100"

definition ELITE_COUNT :: int where
  "ELITE_COUNT = 2"

definition MAX_GENERATION_COUNT :: int where
  "MAX_GENERATION_COUNT = 1000"

definition MAX_CHROMOSOME_AGE :: int where
  "MAX_CHROMOSOME_AGE = 250"

text \<open>
  \<open>fact\<close> of \<open>utils/general.ts\<close>. Below 0 the recursion of the source never reaches its base
  case and ends in a \<open>RangeError\<close> (stack overflow).
\<close>

function fact_js :: "int \<Rightarrow> error + int" where
  "fact_js num =
     (if num < 0 then Inl RangeError
      else if num = 0 \<or> num = 1 then Inr 1
      else (case fact_js (num - 1) of Inl e \<Rightarrow> Inl e | Inr f \<Rightarrow> Inr (num * f)))"
  by pat_completeness auto
termination
  by (relation "measure nat") auto

declare fact_js.simps [simp del]

text \<open>
  The constructor of \<open>GA\<close>. \<open>x || d\<close> takes the default for an absent value and for 0;
  \<open>x ?? d\<close> takes it for an absent value only.
\<close>

definition GA :: "costTable \<Rightarrow> configs \<Rightarrow> error + ga" where
  "GA table cfg =
     (let originFixed = (fixedOriginIndex cfg \<noteq> None);
          defaultPopulationMaxSize =
            (case populationSize cfg of None \<Rightarrow> POPULATION_SIZE
             | Some p \<Rightarrow> if p = 0 then POPULATION_SIZE else p)
      in case fact_js (if originFixed then dimension cfg - 1 else dimension cfg) of
           Inl e \<Rightarrow> Inl e
         | Inr dimensionBasedPopulationSize \<Rightarrow>
             Inr \<lparr> costTable = table,
                   configs = cfg,
                   isOriginFixed = originFixed,
                   returnToOriginFlag = (case returnToOrigin cfg of None \<Rightarrow> True | Some b \<Rightarrow> b),
                   populationSizeField =
                     (if dimensionBasedPopulationSize > defaultPopulationMaxSize
                      then defaultPopulationMaxSize else dimensionBasedPopulationSize),
                   isProblemLarge = (dimensionBasedPopulationSize > defaultPopulationMaxSize),
                   eliteCountField =
                     (case eliteCount cfg of None \<Rightarrow> ELITE_COUNT
                      | Some e \<Rightarrow> if e = 0 then ELITE_COUNT else e),
                   maxGensField =
                     (case maxGens cfg of None \<Rightarrow> MAX_GENERATION_COUNT | Some m \<Rightarrow> m),
                   maxChromosomeAge =
                     (case maxChrAge cfg of None \<Rightarrow> MAX_CHROMOSOME_AGE | Some a \<Rightarrow> a) \<rparr>)"

section \<open>Evaluator\<close>

text \<open>
  \<open>_getRouteCost\<close>: \<open>costTable[originIndex * dimension + destIndex][2]\<close>. Outside the table
  the read is \<open>undefined[2]\<close>, a \<open>TypeError\<close>.
\<close>

definition getRouteCost :: "ga \<Rightarrow> int \<Rightarrow> int \<Rightarrow> error + cost" where
  "getRouteCost g originIndex destIndex =
     (case js_nth (costTable g) (originIndex * dimension (configs g) + destIndex) of
        None \<Rightarrow> Inl TypeError
      | Some (origin, dest, c) \<Rightarrow> Inr c)"

text \<open>
  The \<open>for (let gene of chromosome)\<close> loop of \<open>_evaluateChromosomeFitness\<close>, on the genes
  still to visit and the variables \<open>cost\<close>, \<open>lastGene\<close>, \<open>firstGene\<close> (\<open>None\<close> is \<open>null\<close>).
\<close>

fun travel :: "ga \<Rightarrow> int list \<Rightarrow> cost \<Rightarrow> int option \<Rightarrow> int option
    \<Rightarrow> error + (cost \<times> int option \<times> int option)" where
  "travel g [] c lastGene firstGene = Inr (c, lastGene, firstGene)"
| "travel g (gene # genes) c lastGene firstGene =
     (case lastGene of
        None \<Rightarrow> travel g genes c (Some gene) (Some gene)
      | Some l \<Rightarrow>
          (case getRouteCost g l gene of
             Inl e \<Rightarrow> Inl e
           | Inr r \<Rightarrow> travel g genes (c + r) (Some gene) firstGene))"

text \<open>
  \<open>firstGene && lastGene\<close> in a condition: a gene counts as true when it is neither
  \<open>null\<close> nor 0.
\<close>

fun truthy_gene :: "int option \<Rightarrow> bool" where
  "truthy_gene None = False"
| "truthy_gene (Some gene) = (gene \<noteq> 0)"

definition evaluateChromosomeFitness :: "ga \<Rightarrow> chromosome \<Rightarrow> error + fitness" where
  "evaluateChromosomeFitness g chromosome =
     (case travel g chromosome 0 None None of
        Inl e \<Rightarrow> Inl e
      | Inr (c, lastGene, firstGene) \<Rightarrow>
          if returnToOriginFlag g \<and> truthy_gene firstGene \<and> truthy_gene lastGene
          then (case getRouteCost g (the lastGene) (the firstGene) of
                  Inl e \<Rightarrow> Inl e
                | Inr r \<Rightarrow> Inr (one_over (Num (c + r))))
          else Inr (one_over (Num c)))"

text \<open>
  \<open>_evaluatePopulationFitness\<close>: the map from each chromosome of the population to its
  fitness, in the order of the population.
\<close>

fun evaluatePopulationFitness_loop :: "ga \<Rightarrow> population \<Rightarrow> evaluatedPopulation
    \<Rightarrow> error + evaluatedPopulation" where
  "evaluatePopulationFitness_loop g [] evaluated = Inr evaluated"
| "evaluatePopulationFitness_loop g (chromosomeStr # rest) evaluated =
     (case evaluateChromosomeFitness g (strToChr chromosomeStr) of
        Inl e \<Rightarrow> Inl e
      | Inr f \<Rightarrow> evaluatePopulationFitness_loop g rest (map_set evaluated chromosomeStr f))"

definition evaluatePopulationFitness :: "ga \<Rightarrow> population \<Rightarrow> error + evaluatedPopulation" where
  "evaluatePopulationFitness g population = evaluatePopulationFitness_loop g population []"

section \<open>Sorting by fitness\<close>

text \<open>
  \<open>quickSort.ts\<close> sorts an array of \<open>[chromosome, fitness]\<close> pairs in place, ascending by
  fitness. \<open>source[i][1]\<close> outside the array is \<open>undefined[1]\<close>, a \<open>TypeError\<close>.
\<close>

type_synonym entries = "(chromosomeStr \<times> fitness) list"

definition fitness_at :: "entries \<Rightarrow> int \<Rightarrow> error + fitness" where
  "fitness_at source i = (case js_nth source i of None \<Rightarrow> Inl TypeError | Some (c, f) \<Rightarrow> Inr f)"

definition choosePivot :: "entries \<Rightarrow> int \<Rightarrow> int \<Rightarrow> error + int" where
  "choosePivot source left right =
     (let mid = (left + right) div 2 in
      case fitness_at source left of Inl e \<Rightarrow> Inl e | Inr l \<Rightarrow>
      (case fitness_at source mid of Inl e \<Rightarrow> Inl e | Inr m \<Rightarrow>
      (case fitness_at source right of Inl e \<Rightarrow> Inl e | Inr r \<Rightarrow>
         Inr (if num_less l m
              then (if num_less m r then mid else if num_less l r then right else left)
              else if num_less m r then (if num_less l r then left else right)
              else mid))))"

function scan_up :: "entries \<Rightarrow> fitness \<Rightarrow> int \<Rightarrow> error + int" where
  "scan_up source pivot left =
     (case fitness_at source left of
        Inl e \<Rightarrow> Inl e
      | Inr f \<Rightarrow> if num_less f pivot then scan_up source pivot (left + 1) else Inr left)"
  by pat_completeness auto
termination
  by (relation "measure (\<lambda>(source, pivot, left). nat (int (length source) - left))")
    (auto simp: fitness_at_def js_nth_def split: if_splits option.splits)

function scan_down :: "entries \<Rightarrow> fitness \<Rightarrow> int \<Rightarrow> error + int" where
  "scan_down source pivot right =
     (case fitness_at source right of
        Inl e \<Rightarrow> Inl e
      | Inr f \<Rightarrow> if num_less pivot f then scan_down source pivot (right - 1) else Inr right)"
  by pat_completeness auto
termination
  by (relation "measure (\<lambda>(source, pivot, right). nat (right + 1))")
    (auto simp: fitness_at_def js_nth_def split: if_splits option.splits)

declare scan_up.simps [simp del] scan_down.simps [simp del]

lemma scan_up_ge: "scan_up source pivot left = Inr l \<Longrightarrow> left \<le> l"
  by (induction source pivot left rule: scan_up.induct)
    (subst (asm) (2) scan_up.simps, auto split: sum.splits if_splits)

lemma scan_down_le: "scan_down source pivot right = Inr r \<Longrightarrow> r \<le> right"
  by (induction source pivot right rule: scan_down.induct)
    (subst (asm) (2) scan_down.simps, auto split: sum.splits if_splits)

definition swap :: "'a list \<Rightarrow> int \<Rightarrow> int \<Rightarrow> 'a list" where
  "swap source i j = source[nat i := source ! nat j, nat j := source ! nat i]"

function partition_loop :: "entries \<Rightarrow> fitness \<Rightarrow> int \<Rightarrow> int \<Rightarrow> error + (entries \<times> int)" where
  "partition_loop source pivot left right =
     (if left \<le> right then
        (case scan_up source pivot left of
           Inl e \<Rightarrow> Inl e
         | Inr l \<Rightarrow>
             (case scan_down source pivot right of
                Inl e \<Rightarrow> Inl e
              | Inr r \<Rightarrow>
                  if l \<le> r then partition_loop (swap source l r) pivot (l + 1) (r - 1)
                  else partition_loop source pivot l r))
      else Inr (source, left))"
  by pat_completeness auto
termination
  by (relation "measure (\<lambda>(source, pivot, left, right). nat (right - left + 1))")
    (auto dest!: scan_up_ge scan_down_le)

declare partition_loop.simps [simp del]

definition partition_qs :: "entries \<Rightarrow> int \<Rightarrow> int \<Rightarrow> error + (entries \<times> int)" where
  "partition_qs source left right =
     (case choosePivot source left right of
        Inl e \<Rightarrow> Inl e
      | Inr pivotIndex \<Rightarrow>
          (case fitness_at source pivotIndex of
             Inl e \<Rightarrow> Inl e
           | Inr pivot \<Rightarrow> partition_loop source pivot left right))"

partial_function (option) quickSort_range :: "entries \<Rightarrow> int \<Rightarrow> int \<Rightarrow> (error + entries) option" where
  "quickSort_range source left right =
     (if length source > 1 then
        (case partition_qs source left right of
           Inl e \<Rightarrow> Some (Inl e)
         | Inr (source1, index) \<Rightarrow>
             Option.bind
               (if left < index - 1 then quickSort_range source1 left (index - 1)
                else Some (Inr source1))
               (\<lambda>sorted1.
                  case sorted1 of
                    Inl e \<Rightarrow> Some (Inl e)
                  | Inr source2 \<Rightarrow>
                      if index < right then quickSort_range source2 index right
                      else Some (Inr source2)))
      else Some (Inr source))"

lemma quickSort_range_unfold:
  "quickSort_range source left right =
     (if length source > 1 then
        (case partition_qs source left right of
           Inl e \<Rightarrow> Some (Inl e)
         | Inr (source1, index) \<Rightarrow>
             (case (if left < index - 1 then quickSort_range source1 left (index - 1)
                    else Some (Inr source1)) of
                None \<Rightarrow> None
              | Some (Inl e) \<Rightarrow> Some (Inl e)
              | Some (Inr source2) \<Rightarrow>
                  if index < right then quickSort_range source2 index right
                  else Some (Inr source2)))
      else Some (Inr source))"
  by (subst quickSort_range.simps) (auto split: sum.splits option.splits Option.bind_splits)

definition quickSort :: "entries \<Rightarrow> (error + entries) option" where
  "quickSort source = quickSort_range source 0 (int (length source) - 1)"


section \<open>Statistics and termination\<close>

text \<open>
  \<open>_solution\<close> is a \<open>Partial<SolvedProblem>\<close>: every field starts out undefined (\<open>None\<close>).
  The field \<open>solution\<close> of the source, the best tour, is \<open>solutionChr\<close> here. The mutable
  fields of the \<open>GA\<close> object are gathered in \<open>state\<close>.
\<close>

record solution =
  solvedIn :: "int option"
  generations :: "int option"
  solutionChr :: "chromosomeStr option"
  bestCost :: "number option"
  bestCostGeneration :: "int option"
  worstCost :: "number option"
  worstCostGeneration :: "int option"
  bestCostHistory :: "number list option"
  worstCostHistory :: "number list option"

record state =
  generationCount :: int
  solution :: solution

definition no_solution :: solution where
  "no_solution =
     \<lparr> solvedIn = None, generations = None, solutionChr = None, bestCost = None,
       bestCostGeneration = None, worstCost = None, worstCostGeneration = None,
       bestCostHistory = None, worstCostHistory = None \<rparr>"

text \<open>
  \<open>_registerSolutionStats\<close>. \<open>elapsed\<close> is \<open>Date.now() - this._solvingStartTime\<close>. The best
  chromosome is the last entry of the sorted population and the worst is the first; on an
  empty population both are \<open>undefined\<close> and reading their fitness is a \<open>TypeError\<close>.
\<close>

definition registerSolutionStats :: "state \<Rightarrow> int \<Rightarrow> evaluatedPopulation
    \<Rightarrow> (error + state) option" where
  "registerSolutionStats st elapsed population =
     (case quickSort population of
        None \<Rightarrow> None
      | Some (Inl e) \<Rightarrow> Some (Inl e)
      | Some (Inr sortedPopulation) \<Rightarrow>
          (case js_nth sortedPopulation (int (length sortedPopulation) - 1) of
             None \<Rightarrow> Some (Inl TypeError)
           | Some bestChromosome \<Rightarrow>
               (case js_nth sortedPopulation 0 of
                  None \<Rightarrow> Some (Inl TypeError)
                | Some worstChromosome \<Rightarrow>
                    (let bestCostNow = one_over (snd bestChromosome);
                         worstCostNow = one_over (snd worstChromosome);
                         s0 = (solution st)\<lparr> solvedIn := Some elapsed,
                                generations := Some (generationCount st) \<rparr>;
                         s1 = (if js_not (bestCost s0) \<or> num_less bestCostNow (the (bestCost s0))
                               then s0\<lparr> solutionChr := Some (fst bestChromosome),
                                       bestCost := Some bestCostNow,
                                       bestCostGeneration := Some (generationCount st) \<rparr>
                               else s0);
                         s2 = (if js_not (worstCost s1) \<or> num_less (the (worstCost s1)) worstCostNow
                               then s1\<lparr> worstCost := Some worstCostNow,
                                       worstCostGeneration := Some (generationCount st) \<rparr>
                               else s1);
                         s3 = s2\<lparr> bestCostHistory :=
                                Some ((case bestCostHistory s2 of None \<Rightarrow> [] | Some h \<Rightarrow> h)
                                      @ [bestCostNow]) \<rparr>;
                         s4 = s3\<lparr> worstCostHistory :=
                                Some ((case worstCostHistory s3 of None \<Rightarrow> [] | Some h \<Rightarrow> h)
                                      @ [worstCostNow]) \<rparr>
                     in Some (Inr (st\<lparr> solution := s4 \<rparr>))))))"

text \<open>
  \<open>_hasEndingConditionsMet\<close>. \<open>if (this._solution.bestCostGeneration)\<close> holds for a
  generation that is defined and not 0.
\<close>

definition hasEndingConditionsMet :: "ga \<Rightarrow> state \<Rightarrow> bool" where
  "hasEndingConditionsMet g st =
     (if generationCount st > maxGensField g then True
      else if (case bestCostGeneration (solution st) of
                 None \<Rightarrow> False
               | Some b \<Rightarrow> b \<noteq> 0 \<and> generationCount st - b > maxChromosomeAge g)
      then True
      else if \<not> isProblemLarge g then True
      else False)"

section \<open>Survival\<close>

text \<open>
  \<open>_survivalSelection\<close>: both generations are sorted ascending by fitness, then
  \<open>nextGeneration.splice(nextGeneration.length - eliteCount, eliteCount,
  ...sortedLastGeneration.slice(0, eliteCount + 1))\<close>, and the result is made a \<open>Map\<close>.
\<close>

definition survivalSelection :: "ga \<Rightarrow> evaluatedPopulation \<Rightarrow> population
    \<Rightarrow> (error + evaluatedPopulation) option" where
  "survivalSelection g lastGeneration evolvedPopulation =
     (case quickSort lastGeneration of
        None \<Rightarrow> None
      | Some (Inl e) \<Rightarrow> Some (Inl e)
      | Some (Inr sortedLastGeneration) \<Rightarrow>
          (case evaluatePopulationFitness g evolvedPopulation of
             Inl e \<Rightarrow> Some (Inl e)
           | Inr evaluatedPopulation \<Rightarrow>
               (case quickSort evaluatedPopulation of
                  None \<Rightarrow> None
                | Some (Inl e) \<Rightarrow> Some (Inl e)
                | Some (Inr nextGeneration) \<Rightarrow>
                    Some (Inr (new_Map
                      (js_splice nextGeneration
                         (int (length nextGeneration) - eliteCountField g)
                         (eliteCountField g)
                         (js_slice sortedLastGeneration 0 (eliteCountField g + 1))))))))"

section \<open>Random draws\<close>

text \<open>
  \<open>random(min, max) = Math.floor(Math.random() * (max - min + 1)) + min\<close> of
  \<open>utils/general.ts\<close>. The value \<open>u\<close> of \<open>Math.random()\<close> is an argument: a real with
  \<open>0 \<le> u < 1\<close>. A method that draws takes the values of its successive draws as
  arguments; where a loop draws until a condition holds, it takes a list of draws and
  returns \<open>None\<close> when the list ends before the loop does.
\<close>

definition random_js :: "int \<Rightarrow> int \<Rightarrow> real \<Rightarrow> int" where
  "random_js lo hi u = \<lfloor>u * real_of_int (hi - lo + 1)\<rfloor> + lo"

definition unit_draw :: "real \<Rightarrow> bool" where
  "unit_draw u = (0 \<le> u \<and> u < 1)"

section \<open>Variation\<close>

definition INVALID_COUPLE_TYPE :: string where
  "INVALID_COUPLE_TYPE = ''Invalid couple type provided''"

definition INTERNAL_SERVER_ERROR :: nat where
  "INTERNAL_SERVER_ERROR = 500"

definition first_locus_bound :: "ga \<Rightarrow> int" where
  "first_locus_bound g = (if isOriginFixed g then 1 else 0)"

text \<open>
  The \<open>do ... while (firstLocus === lastLocus)\<close> loop of \<open>_mutate\<close>: each pass draws both
  loci, from \<open>[1, dimension - 1]\<close> when the origin is fixed and from \<open>[0, dimension - 1]\<close>
  otherwise.
\<close>

fun draw_loci :: "ga \<Rightarrow> (real \<times> real) list \<Rightarrow> (int \<times> int) option" where
  "draw_loci g [] = None"
| "draw_loci g ((u1, u2) # draws) =
     (let firstLocus = random_js (first_locus_bound g) (dimension (configs g) - 1) u1;
          lastLocus = random_js (first_locus_bound g) (dimension (configs g) - 1) u2
      in if firstLocus = lastLocus then draw_loci g draws else Some (firstLocus, lastLocus))"

text \<open>
  \<open>_mutate\<close> on a chromosome string: the loci are ordered, the genes between them are
  reversed and taken out, and put back at a random position of what remains. \<open>u\<close> is the
  draw of the displacement position.
\<close>

definition mutate :: "ga \<Rightarrow> chromosomeStr \<Rightarrow> (real \<times> real) list \<Rightarrow> real
    \<Rightarrow> (error + chromosomeStr) option" where
  "mutate g chromosomeStr draws u =
     (let chromosome = strToChr chromosomeStr in
      case draw_loci g draws of
        None \<Rightarrow> None
      | Some (locusA, locusB) \<Rightarrow>
          (let firstLocus = (if locusA > locusB then locusB else locusA);
               lastLocus = (if locusA > locusB then locusA else locusB);
               invertedPart = rev (js_slice chromosome firstLocus (lastLocus + 1));
               remaining = filter (\<lambda>gene. gene \<notin> set invertedPart) chromosome;
               displacementPosition =
                 random_js (first_locus_bound g) (int (length remaining)) u;
               chromosomeArray = js_splice remaining displacementPosition 0 invertedPart
           in if length chromosomeArray \<noteq> length chromosome
              then Some (Inl (PlainError ''Mutate Offspring chromosomes have incorrect gene count''))
              else Some (Inr (chrToStr (new_Set chromosomeArray)))))"

text \<open>
  The selection of loci in \<open>_mate\<close>: loci are drawn until \<open>n\<close> different ones are
  selected; a locus already selected is drawn again.
\<close>

fun select_loci :: "int \<Rightarrow> int \<Rightarrow> int \<Rightarrow> int list \<Rightarrow> real list \<Rightarrow> int list option" where
  "select_loci n lo hi selectedLoci [] =
     (if int (length selectedLoci) < n then None else Some selectedLoci)"
| "select_loci n lo hi selectedLoci (u # us) =
     (if int (length selectedLoci) < n then
        (let locus = random_js lo hi u in
         if locus \<in> set selectedLoci then select_loci n lo hi selectedLoci us
         else select_loci n lo hi (selectedLoci @ [locus]) us)
      else Some selectedLoci)"

definition mate_loci :: "ga \<Rightarrow> real \<Rightarrow> real list \<Rightarrow> int list option" where
  "mate_loci g u us =
     (let maxLocusSelectionCount =
            (if isOriginFixed g then dimension (configs g) - 1 else dimension (configs g));
          locusSelectionCount = random_js 1 maxLocusSelectionCount u
      in select_loci locusSelectionCount (first_locus_bound g) (dimension (configs g) - 1) [] us)"

text \<open>
  \<open>offspring.indexOf(parent[locus])\<close>: a locus outside the parent reads \<open>undefined\<close>, which
  no chromosome holds, and \<open>indexOf\<close> is \<open>-1\<close>.
\<close>

definition index_of_gene :: "int list \<Rightarrow> int option \<Rightarrow> int" where
  "index_of_gene offspring gene = (case gene of None \<Rightarrow> -1 | Some v \<Rightarrow> js_indexOf offspring v)"

text \<open>
  The first loop of the crossover: for each selected locus, in the order of selection, the
  gene of the other parent at the locus is replaced by \<open>-1\<close> in the offspring.
\<close>

fun mark_loci :: "int list \<Rightarrow> int list \<Rightarrow> int list \<Rightarrow> int list \<Rightarrow> int list
    \<Rightarrow> int list \<times> int list" where
  "mark_loci parentA parentB offspringA offspringB [] = (offspringA, offspringB)"
| "mark_loci parentA parentB offspringA offspringB (locus # loci) =
     mark_loci parentA parentB
       (js_splice offspringA (index_of_gene offspringA (js_nth parentB locus)) 1 [-1])
       (js_splice offspringB (index_of_gene offspringB (js_nth parentA locus)) 1 [-1])
       loci"

text \<open>The inner loops of the second loop: the first \<open>-1\<close> of the offspring receives the gene.\<close>

fun fill_first_hole :: "int list \<Rightarrow> int \<Rightarrow> int list" where
  "fill_first_hole [] gene = []"
| "fill_first_hole (x # xs) gene =
     (if x \<noteq> -1 then x # fill_first_hole xs gene else gene # xs)"

text \<open>
  The second loop, over the sorted loci. A locus outside a parent would store \<open>undefined\<close>
  in the offspring; the model does not follow the source there and ends in \<open>Unmodelled\<close>.
\<close>

fun fill_loci :: "int list \<Rightarrow> int list \<Rightarrow> int list \<Rightarrow> int list \<Rightarrow> int list
    \<Rightarrow> error + (int list \<times> int list)" where
  "fill_loci parentA parentB offspringA offspringB [] = Inr (offspringA, offspringB)"
| "fill_loci parentA parentB offspringA offspringB (locus # loci) =
     (case js_nth parentB locus of
        None \<Rightarrow> Inl Unmodelled
      | Some geneB \<Rightarrow>
          (case js_nth parentA locus of
             None \<Rightarrow> Inl Unmodelled
           | Some geneA \<Rightarrow>
               fill_loci parentA parentB (fill_first_hole offspringA geneB)
                 (fill_first_hole offspringB geneA) loci))"

text \<open>
  \<open>_mate\<close> on the set of the two parents; \<open>u\<close> is the draw of the number of loci and \<open>us\<close>
  are the draws of the loci.
\<close>

definition mate :: "ga \<Rightarrow> chromosomeStr list \<Rightarrow> real \<Rightarrow> real list
    \<Rightarrow> (error + chromosomeStr list) option" where
  "mate g parents u us =
     (if length parents \<noteq> 2 then Some (Inl (AppError INTERNAL_SERVER_ERROR INVALID_COUPLE_TYPE))
      else
        (let parentA = strToChr (parents ! 0);
             parentB = strToChr (parents ! 1)
         in case mate_loci g u us of
              None \<Rightarrow> None
            | Some selectedLoci \<Rightarrow>
                (case mark_loci parentA parentB parentA parentB selectedLoci of
                   (markedA, markedB) \<Rightarrow>
                     (case fill_loci parentA parentB markedA markedB (sort selectedLoci) of
                        Inl e \<Rightarrow> Some (Inl e)
                      | Inr (offspringA, offspringB) \<Rightarrow>
                          Some (Inr (new_Set [chrToStr offspringA, chrToStr offspringB]))))))"

subsection \<open>Tours, and the crossover of one offspring\<close>

text \<open>A tour of \<open>n\<close> nodes is a permutation of \<open>[0, n)\<close>: sorted, it is \<open>[0, ..., n - 1]\<close>.\<close>

definition is_tour :: "int \<Rightarrow> int list \<Rightarrow> bool" where
  "is_tour n c = (sort c = [0..n - 1])"

text \<open>
  The two loops of the crossover treat the two offspring independently; \<open>mark_one\<close> and
  \<open>fill_one\<close> are what they do to one offspring, given the other parent.
\<close>

fun mark_one :: "int list \<Rightarrow> int list \<Rightarrow> int list \<Rightarrow> int list" where
  "mark_one offspring parent [] = offspring"
| "mark_one offspring parent (locus # loci) =
     mark_one (js_splice offspring (index_of_gene offspring (js_nth parent locus)) 1 [-1])
       parent loci"

fun fill_one :: "int list \<Rightarrow> int list \<Rightarrow> int list \<Rightarrow> error + int list" where
  "fill_one offspring parent [] = Inr offspring"
| "fill_one offspring parent (locus # loci) =
     (case js_nth parent locus of
        None \<Rightarrow> Inl Unmodelled
      | Some gene \<Rightarrow> fill_one (fill_first_hole offspring gene) parent loci)"

section \<open>Seeding\<close>

text \<open>
  Both seeders start a chromosome with the fixed origin when there is one. The constructor
  sets \<open>_isOriginFixed\<close> exactly when \<open>fixedOriginIndex\<close> is given; for a \<open>ga\<close> record that
  claims a fixed origin and has none the source would add \<open>undefined\<close>, which the model
  reports as \<open>Unmodelled\<close>.
\<close>

definition place_origin :: "ga \<Rightarrow> error + int list" where
  "place_origin g =
     (if isOriginFixed g then
        (case fixedOriginIndex (configs g) of
           None \<Rightarrow> Inl Unmodelled
         | Some fixedOrigin \<Rightarrow> Inr [fixedOrigin])
      else Inr [])"

subsection \<open>Nearest-neighbor chromosomes\<close>

definition getCostTableBoundaries :: "ga \<Rightarrow> int \<Rightarrow> int \<times> int" where
  "getCostTableBoundaries g node =
     (let firstRouteIndex = node * dimension (configs g);
          lastRouteIndex = firstRouteIndex + dimension (configs g)
      in (firstRouteIndex, lastRouteIndex))"

text \<open>
  The \<open>for (route = firstRouteIndex; route < lastRouteIndex; route++)\<close> loop of
  \<open>_generateNnaChrs\<close>, on the routes still to scan and the variables \<open>nearestNeighborCost\<close>
  and \<open>nextGeneCandidate\<close> (\<open>None\<close> is \<open>null\<close>). \<open>!nearestNeighborCost\<close> holds for \<open>null\<close> and
  for 0, and \<open>nearestNeighborCost && cost < nearestNeighborCost\<close> needs a cost that is
  neither.
\<close>

fun nearest_scan :: "costTable \<Rightarrow> int list \<Rightarrow> int list \<Rightarrow> cost option \<Rightarrow> int option
    \<Rightarrow> error + (cost option \<times> int option)" where
  "nearest_scan table visitedNodes [] nearestNeighborCost nextGeneCandidate =
     Inr (nearestNeighborCost, nextGeneCandidate)"
| "nearest_scan table visitedNodes (route # routes) nearestNeighborCost nextGeneCandidate =
     (case js_nth table route of
        None \<Rightarrow> Inl TypeError
      | Some (origin, dest, c) \<Rightarrow>
          if origin = dest
          then nearest_scan table visitedNodes routes nearestNeighborCost nextGeneCandidate
          else
            (let isNeighborUnvisited = (dest \<notin> set visitedNodes);
                 isNearestNeighborUninitialized =
                   (case nearestNeighborCost of None \<Rightarrow> True | Some n \<Rightarrow> n = 0);
                 isCurrentCostLower =
                   (case nearestNeighborCost of None \<Rightarrow> False | Some n \<Rightarrow> n \<noteq> 0 \<and> c < n)
             in if (isNearestNeighborUninitialized \<or> isCurrentCostLower) \<and> isNeighborUnvisited
                then nearest_scan table visitedNodes routes (Some c) (Some dest)
                else nearest_scan table visitedNodes routes nearestNeighborCost
                       nextGeneCandidate))"

text \<open>One extension step: the scan of the row of the last gene of the partial tour.\<close>

definition nearest_neighbor :: "ga \<Rightarrow> int list \<Rightarrow> int \<Rightarrow> error + (cost option \<times> int option)" where
  "nearest_neighbor g visitedNodes lastGene =
     (case getCostTableBoundaries g lastGene of
        (firstRouteIndex, lastRouteIndex) \<Rightarrow>
          nearest_scan (costTable g) visitedNodes [firstRouteIndex..lastRouteIndex - 1] None None)"

lemma nearest_scan_unvisited:
  "nearest_scan table visitedNodes routes nearestNeighborCost nextGeneCandidate
     = Inr (c, Some gene) \<Longrightarrow>
   nextGeneCandidate = None \<or> the nextGeneCandidate \<notin> set visitedNodes \<Longrightarrow>
   gene \<notin> set visitedNodes"
proof (induction routes arbitrary: nearestNeighborCost nextGeneCandidate)
  case Nil
  then show ?case by auto
next
  case (Cons route routes)
  from Cons.prems(1) obtain origin dest r where
    entry: "js_nth table route = Some (origin, dest, r)"
    by (auto split: option.splits)
  show ?case
  proof (cases "origin \<noteq> dest \<and> dest \<notin> set visitedNodes \<and>
      ((case nearestNeighborCost of None \<Rightarrow> True | Some n \<Rightarrow> n = 0) \<or>
       (case nearestNeighborCost of None \<Rightarrow> False | Some n \<Rightarrow> n \<noteq> 0 \<and> r < n))")
    case True
    with Cons.prems(1) entry
    have "nearest_scan table visitedNodes routes (Some r) (Some dest) = Inr (c, Some gene)"
      by (simp add: Let_def)
    from Cons.IH [OF this] True show ?thesis by simp
  next
    case False
    with Cons.prems(1) entry
    have "nearest_scan table visitedNodes routes nearestNeighborCost nextGeneCandidate
        = Inr (c, Some gene)"
      by (auto simp: Let_def split: if_splits)
    from Cons.IH [OF this Cons.prems(2)] show ?thesis .
  qed
qed

text \<open>
  The \<open>while (chromosome.size < this.configs.dimension)\<close> loop. \<open>visitedNodes\<close> receives
  exactly the nodes that \<open>chromosome\<close> receives, so the chromosome stands for both. A
  candidate that is still \<open>null\<close> after the scan would be added to the chromosome as
  \<open>null\<close>; the model ends in \<open>Unmodelled\<close> there.
\<close>

function nna_extend :: "ga \<Rightarrow> int list \<Rightarrow> error + int list" where
  "nna_extend g chromosome =
     (if int (length chromosome) < dimension (configs g) then
        (case js_nth chromosome (int (length chromosome) - 1) of
           None \<Rightarrow> Inl Unmodelled
         | Some lastGene \<Rightarrow>
             (case nearest_neighbor g chromosome lastGene of
                Inl e \<Rightarrow> Inl e
              | Inr (nearestNeighborCost, None) \<Rightarrow> Inl Unmodelled
              | Inr (nearestNeighborCost, Some nextGene) \<Rightarrow>
                  nna_extend g (set_add chromosome nextGene)))
      else Inr chromosome)"
  by pat_completeness auto
termination
proof (relation "measure (\<lambda>(g, chromosome). nat (dimension (configs g) - int (length chromosome)))")
  fix g :: ga and chromosome lastGene x nearestNeighborCost candidate nextGene
  assume "int (length chromosome) < dimension (configs g)"
    and "nearest_neighbor g chromosome lastGene = Inr x"
    and "(nearestNeighborCost, candidate) = x" and "candidate = Some nextGene"
  then have "nextGene \<notin> set chromosome"
    by (auto simp: nearest_neighbor_def getCostTableBoundaries_def Let_def
        dest: nearest_scan_unvisited)
  then show "((g, set_add chromosome nextGene), (g, chromosome))
      \<in> measure (\<lambda>(g, chromosome). nat (dimension (configs g) - int (length chromosome)))"
    using \<open>int (length chromosome) < dimension (configs g)\<close> by (simp add: set_add_def)
qed simp

declare nna_extend.simps [simp del]

text \<open>The loop that draws the starting node: a node already visited is drawn again.\<close>

fun random_start :: "ga \<Rightarrow> int list \<Rightarrow> real list \<Rightarrow> int option" where
  "random_start g visitedNodes [] = None"
| "random_start g visitedNodes (u # us) =
     (let randomNode = random_js 0 (dimension (configs g) - 1) u
      in if randomNode \<in> set visitedNodes then random_start g visitedNodes us
         else Some randomNode)"

text \<open>One pass of the outer loop of \<open>_generateNnaChrs\<close>: the chromosome it builds.\<close>

definition nna_chromosome :: "ga \<Rightarrow> real list \<Rightarrow> (error + int list) option" where
  "nna_chromosome g us =
     (case place_origin g of
        Inl e \<Rightarrow> Some (Inl e)
      | Inr chromosome \<Rightarrow>
          (case random_start g chromosome us of
             None \<Rightarrow> None
           | Some randomNode \<Rightarrow> Some (nna_extend g (set_add chromosome randomNode))))"

text \<open>
  \<open>_generateNnaChrs(count)\<close>: chromosomes are built until the population holds \<open>count\<close>
  different ones. \<open>tapes\<close> holds the draws of each pass.
\<close>

fun generateNnaChrs_loop :: "ga \<Rightarrow> int \<Rightarrow> population \<Rightarrow> real list list
    \<Rightarrow> (error + population) option" where
  "generateNnaChrs_loop g n population [] =
     (if int (length population) < n then None else Some (Inr population))"
| "generateNnaChrs_loop g n population (us # tapes) =
     (if int (length population) < n then
        (case nna_chromosome g us of
           None \<Rightarrow> None
         | Some (Inl e) \<Rightarrow> Some (Inl e)
         | Some (Inr chromosome) \<Rightarrow>
             generateNnaChrs_loop g n (set_add population (chrToStr chromosome)) tapes)
      else Some (Inr population))"

definition generateNnaChrs :: "ga \<Rightarrow> int \<Rightarrow> real list list \<Rightarrow> (error + population) option" where
  "generateNnaChrs g n tapes = generateNnaChrs_loop g n [] tapes"

subsection \<open>Random chromosomes\<close>

text \<open>
  The inner loop of \<open>_generateRandomChrs\<close>: nodes are drawn until the chromosome holds
  \<open>dimension\<close> of them; a node it holds already is drawn again.
\<close>

fun random_fill :: "ga \<Rightarrow> int list \<Rightarrow> real list \<Rightarrow> int list option" where
  "random_fill g chromosome [] =
     (if int (length chromosome) < dimension (configs g) then None else Some chromosome)"
| "random_fill g chromosome (u # us) =
     (if int (length chromosome) < dimension (configs g) then
        random_fill g (set_add chromosome (random_js 0 (dimension (configs g) - 1) u)) us
      else Some chromosome)"

definition random_chromosome :: "ga \<Rightarrow> real list \<Rightarrow> (error + int list) option" where
  "random_chromosome g us =
     (case place_origin g of
        Inl e \<Rightarrow> Some (Inl e)
      | Inr chromosome \<Rightarrow>
          (case random_fill g chromosome us of
             None \<Rightarrow> None
           | Some filled \<Rightarrow> Some (Inr filled)))"

fun generateRandomChrs_loop :: "ga \<Rightarrow> int \<Rightarrow> population \<Rightarrow> real list list
    \<Rightarrow> (error + population) option" where
  "generateRandomChrs_loop g n population [] =
     (if int (length population) < n then None else Some (Inr population))"
| "generateRandomChrs_loop g n population (us # tapes) =
     (if int (length population) < n then
        (case random_chromosome g us of
           None \<Rightarrow> None
         | Some (Inl e) \<Rightarrow> Some (Inl e)
         | Some (Inr chromosome) \<Rightarrow>
             generateRandomChrs_loop g n (set_add population (chrToStr chromosome)) tapes)
      else Some (Inr population))"

definition generateRandomChrs :: "ga \<Rightarrow> int \<Rightarrow> real list list \<Rightarrow> (error + population) option" where
  "generateRandomChrs g n tapes = generateRandomChrs_loop g n [] tapes"

section \<open>The generations of a solve\<close>

text \<open>
  \<open>solve\<close> seeds and evaluates the initial population, registers its statistics with the
  generation counter at 1 (\<open>_generateInitialPopulation\<close> has incremented it), and then,
  while \<open>_hasEndingConditionsMet\<close> is false, evolves the population, applies
  \<open>_survivalSelection\<close>, increments the counter and registers again. The seeded and the
  evolved populations come from random draws; here they are arbitrary populations, so the
  relation below holds of every pair of \<open>this\<close> and \<open>evaluatedPopulation\<close> that \<open>solve\<close> can
  have after a registration.
\<close>

inductive solve_reaches :: "ga \<Rightarrow> state \<Rightarrow> evaluatedPopulation \<Rightarrow> bool" for g :: ga where
  seeded:
    "evaluatePopulationFitness g population = Inr evaluated \<Longrightarrow>
     registerSolutionStats \<lparr> generationCount = 1, solution = no_solution \<rparr> elapsed evaluated
       = Some (Inr st) \<Longrightarrow>
     solve_reaches g st evaluated"
| evolved:
    "solve_reaches g st evaluated \<Longrightarrow>
     \<not> hasEndingConditionsMet g st \<Longrightarrow>
     survivalSelection g evaluated evolvedPopulation = Some (Inr nextGeneration) \<Longrightarrow>
     registerSolutionStats (st\<lparr> generationCount := generationCount st + 1 \<rparr>) elapsed
       nextGeneration = Some (Inr st') \<Longrightarrow>
     solve_reaches g st' nextGeneration"

section \<open>The routing client\<close>

text \<open>
  \<open>services/brokerServices.ts\<close>. Two collaborators are outside the repository and are
  arguments of the model: \<open>isLatLong\<close> of the package \<open>validator\<close>, and \<open>fetch\<close>, which is
  \<open>http\<close> here, from the URL and the value of the \<open>Api-Key\<close> header to the response, or
  to the error with which the request is rejected. A response has its HTTP status, of
  which \<open>response.ok\<close> says that it is in the range 200 to 299, and what
  \<open>response.json()\<close> resolves to: the routes of a \<open>NeshanResponse\<close>, each the list of its
  legs, each leg the values of its distance and its duration.
\<close>

text \<open>
  Modelled from the spec: the enum \<open>HttpStatusCode\<close> of \<open>constants/statusConstants.ts\<close> is
  not among the sources; invalid coordinates are a 400-class error and an upstream failure
  a 500-class error.
\<close>

definition BAD_REQUEST :: nat where
  "BAD_REQUEST = 400"

definition ORG_DEST_VALID_ERR :: string where
  "ORG_DEST_VALID_ERR = ''Origin or destination are invalid''"

definition API_UNSUPPORTED_ERR :: string where
  "API_UNSUPPORTED_ERR = ''Unsupported API''"

definition NESHAN_V4_BASE_URL :: string where
  "NESHAN_V4_BASE_URL = ''https://api.neshan.org/v4/direction''"

definition NESHAN_API_FAILED :: string where
  "NESHAN_API_FAILED = ''Fetching routing data from Neshan failed''"

definition NESHAN_API_KEY_NOT_FOUND :: string where
  "NESHAN_API_KEY_NOT_FOUND = ''Neshan API key is missing or invalid''"

definition NESHAN :: string where
  "NESHAN = ''neshan''"

datatype neshanVehicle = MOTORCYCLE | CAR

fun vehicle_text :: "neshanVehicle \<Rightarrow> string" where
  "vehicle_text MOTORCYCLE = ''motorcycle''"
| "vehicle_text CAR = ''CAR''"

type_synonym coordinate = string
type_synonym leg = "real \<times> real"
type_synonym neshanResponse = "leg list list"

record response =
  status :: nat
  json :: "error + neshanResponse"

definition response_ok :: "response \<Rightarrow> bool" where
  "response_ok r = (200 \<le> status r \<and> status r \<le> 299)"

text \<open>
  \<open>RouteData\<close> without \<open>fetchedAt\<close>, the time of the call; \<open>costDistance\<close> and
  \<open>costDuration\<close> are \<open>cost.distance\<close> and \<open>cost.duration\<close>.
\<close>

record routeData =
  routeOrigin :: coordinate
  routeDestination :: coordinate
  costDistance :: real
  costDuration :: real

definition route_url :: "neshanVehicle \<Rightarrow> coordinate \<Rightarrow> coordinate \<Rightarrow> string" where
  "route_url vehicle org dest =
     NESHAN_V4_BASE_URL @ ''?type='' @ vehicle_text vehicle @ ''&origin='' @ org
       @ ''&destination='' @ dest"

text \<open>
  \<open>getNeshanRoute\<close>. \<open>route.routes[0].legs[0]\<close> of a response without a route or without
  a leg is a \<open>TypeError\<close>.
\<close>

definition getNeshanRoute :: "(string \<Rightarrow> bool) \<Rightarrow> (string \<Rightarrow> string \<Rightarrow> error + response)
    \<Rightarrow> string \<Rightarrow> coordinate \<times> coordinate \<Rightarrow> neshanVehicle \<Rightarrow> error + routeData" where
  "getNeshanRoute isLatLong http apiKey coords vehicle =
     (case coords of
        (org, dest) \<Rightarrow>
          if \<not> isLatLong org \<or> \<not> isLatLong dest
          then Inl (AppError BAD_REQUEST ORG_DEST_VALID_ERR)
          else
            (case http (route_url vehicle org dest) apiKey of
               Inl e \<Rightarrow> Inl e
             | Inr resp \<Rightarrow>
                 if \<not> response_ok resp
                 then Inl (AppError INTERNAL_SERVER_ERROR NESHAN_API_FAILED)
                 else
                   (case json resp of
                      Inl e \<Rightarrow> Inl e
                    | Inr routes \<Rightarrow>
                        (case js_nth routes 0 of
                           None \<Rightarrow> Inl TypeError
                         | Some legs \<Rightarrow>
                             (case js_nth legs 0 of
                                None \<Rightarrow> Inl TypeError
                              | Some (distanceValue, durationValue) \<Rightarrow>
                                  Inr \<lparr> routeOrigin = org, routeDestination = dest,
                                        costDistance = distanceValue,
                                        costDuration = durationValue \<rparr>)))))"

text \<open>
  The text of an error in a template string: an \<open>AppError\<close> and an \<open>Error\<close> print as
  \<open>Error: message\<close>.
\<close>

fun error_text :: "error \<Rightarrow> string" where
  "error_text (AppError code message) = ''Error: '' @ message"
| "error_text (PlainError message) = ''Error: '' @ message"
| "error_text TypeError = ''TypeError''"
| "error_text RangeError = ''RangeError''"
| "error_text Unmodelled = ''''"

text \<open>
  The two loops of \<open>calculateCostTable\<close> over \<open>coords.entries()\<close> visit the pairs of
  \<open>loop_pairs\<close> in this order. A pair of equal indices pushes its entry of cost 0 at once;
  for every other pair a request is started.
\<close>

type_synonym request = "(nat \<times> coordinate) \<times> (nat \<times> coordinate)"

definition loop_pairs :: "coordinate list \<Rightarrow> request list" where
  "loop_pairs coords = List.product (enumerate 0 coords) (enumerate 0 coords)"

definition diagonal_entries :: "coordinate list \<Rightarrow> costTable" where
  "diagonal_entries coords =
     map (\<lambda>((originIndex, org), (destIndex, dest)). (int originIndex, int destIndex, 0))
       (filter (\<lambda>((originIndex, org), (destIndex, dest)). originIndex = destIndex)
          (loop_pairs coords))"

definition requests :: "coordinate list \<Rightarrow> request list" where
  "requests coords =
     filter (\<lambda>((originIndex, org), (destIndex, dest)). originIndex \<noteq> destIndex)
       (loop_pairs coords)"

text \<open>
  The requests run concurrently; \<open>settled\<close> is the list of the requests in the order in
  which they settle. A request that is fulfilled pushes its entry to the table in its
  \<open>then\<close> callback; the first one that is rejected rejects \<open>Promise.all\<close>, and with it the
  call, with the error that its \<open>catch\<close> callback raises. The table is local to the call,
  so what later callbacks push is not seen.
\<close>

fun settle :: "(coordinate \<times> coordinate \<Rightarrow> error + routeData) \<Rightarrow> request list \<Rightarrow> costTable
    \<Rightarrow> error + costTable" where
  "settle costFetcher [] table = Inr table"
| "settle costFetcher (((originIndex, org), (destIndex, dest)) # settled) table =
     (case costFetcher (org, dest) of
        Inl err \<Rightarrow> Inl (PlainError (NESHAN_API_FAILED @ '', '' @ error_text err))
      | Inr route \<Rightarrow>
          settle costFetcher settled
            (table @ [(int originIndex, int destIndex, costDuration route)]))"

text \<open>
  \<open>costTable.sort\<close> with the comparator of the source, which orders by the origin index and
  then by the destination index; the sort of an array is stable.
\<close>

definition sort_table :: "costTable \<Rightarrow> costTable" where
  "sort_table table = sort_key (\<lambda>(originIndex, destIndex, c). (originIndex, destIndex)) table"

text \<open>
  \<open>calculateCostTable\<close>. \<open>apiInfo\<close> is the key, which may be undefined, and the name of the
  API, for which \<open>neshan\<close> is the default.
\<close>

definition calculateCostTable :: "(string \<Rightarrow> bool) \<Rightarrow> (string \<Rightarrow> string \<Rightarrow> error + response)
    \<Rightarrow> request list \<Rightarrow> coordinate list \<Rightarrow> string option \<times> string option \<Rightarrow> neshanVehicle
    \<Rightarrow> error + costTable" where
  "calculateCostTable isLatLong http settled coords apiInfo vehicle =
     (case apiInfo of
        (key, name) \<Rightarrow>
          (case key of
             None \<Rightarrow> Inl (PlainError NESHAN_API_KEY_NOT_FOUND)
           | Some apiKey \<Rightarrow>
               if apiKey = [] then Inl (PlainError NESHAN_API_KEY_NOT_FOUND)
               else if (case name of None \<Rightarrow> NESHAN | Some apiName \<Rightarrow> apiName) \<noteq> NESHAN
               then Inl (PlainError API_UNSUPPORTED_ERR)
               else
                 (case settle (\<lambda>pair. getNeshanRoute isLatLong http apiKey pair vehicle)
                    settled (diagonal_entries coords) of
                    Inl e \<Rightarrow> Inl e
                  | Inr table \<Rightarrow> Inr (sort_table table))))"

subsection \<open>A provider for three coordinates\<close>

text \<open>
  Three coordinates and a validator that accepts them. The provider \<open>http3\<close> answers the
  six requests between them with status 200 and the durations of \<open>durations3\<close>;
  \<open>http3_down\<close> answers the request from the first to the third coordinate with status
  500. \<open>settled3\<close> is an order in which the six requests may settle.
\<close>

definition coords3 :: "coordinate list" where
  "coords3 = [''35,51'', ''36,52'', ''37,53'']"

definition isLatLong3 :: "string \<Rightarrow> bool" where
  "isLatLong3 c = (c \<in> set coords3)"

definition durations3 :: "(string \<times> real) list" where
  "durations3 =
     [(route_url MOTORCYCLE ''35,51'' ''36,52'', 10), (route_url MOTORCYCLE ''35,51'' ''37,53'', 20),
      (route_url MOTORCYCLE ''36,52'' ''35,51'', 12), (route_url MOTORCYCLE ''36,52'' ''37,53'', 15),
      (route_url MOTORCYCLE ''37,53'' ''35,51'', 25), (route_url MOTORCYCLE ''37,53'' ''36,52'', 18)]"

definition http3 :: "string \<Rightarrow> string \<Rightarrow> error + response" where
  "http3 url apiKey =
     (case map_of durations3 url of
        None \<Rightarrow> Inr \<lparr> status = 404, json = Inl TypeError \<rparr>
      | Some d \<Rightarrow> Inr \<lparr> status = 200, json = Inr [[(1000, d)]] \<rparr>)"

definition http3_down :: "string \<Rightarrow> string \<Rightarrow> error + response" where
  "http3_down url apiKey =
     (if url = route_url MOTORCYCLE ''35,51'' ''37,53''
      then Inr \<lparr> status = 500, json = Inl TypeError \<rparr>
      else http3 url apiKey)"

definition settled3 :: "request list" where
  "settled3 =
     [((2, ''37,53''), (0, ''35,51'')), ((0, ''35,51''), (1, ''36,52'')),
      ((1, ''36,52''), (2, ''37,53'')), ((0, ''35,51''), (2, ''37,53'')),
      ((2, ''37,53''), (1, ''36,52'')), ((1, ''36,52''), (0, ''35,51''))]"

definition table3 :: costTable where
  "table3 =
     [(0, 0, 0), (0, 1, 10), (0, 2, 20),
      (1, 0, 12), (1, 1, 0), (1, 2, 15),
      (2, 0, 25), (2, 1, 18), (2, 2, 0)]"

text \<open>The duration that the provider reports from one coordinate to another.\<close>

definition reported3 :: "coordinate \<Rightarrow> coordinate \<Rightarrow> real" where
  "reported3 org dest =
     (case map_of durations3 (route_url MOTORCYCLE org dest) of None \<Rightarrow> 0 | Some d \<Rightarrow> d)"

subsection \<open>The fitness of the specification\<close>

text \<open>
  The specification's words: the cost of a tour is the sum of \<open>costTable[c_k, c_{k+1}]\<close> for
  \<open>k = 0..N-2\<close>, plus \<open>costTable[c_{N-1}, c_0]\<close> exactly when \<open>returnToOrigin\<close> is true, and
  the fitness is 1 divided by it. \<open>entry\<close> is the cost the table holds for a pair.
\<close>

definition entry :: "costTable \<Rightarrow> int \<Rightarrow> int \<Rightarrow> int \<Rightarrow> cost" where
  "entry table n i j = snd (snd (table ! nat (i * n + j)))"

definition spec_cost :: "costTable \<Rightarrow> bool \<Rightarrow> int list \<Rightarrow> cost" where
  "spec_cost table rto c =
     (\<Sum>k < length c - 1. entry table (int (length c)) (c ! k) (c ! Suc k))
     + (if rto then entry table (int (length c)) (last c) (hd c) else 0)"

definition spec_fitness :: "costTable \<Rightarrow> bool \<Rightarrow> int list \<Rightarrow> fitness" where
  "spec_fitness table rto c = one_over (Num (spec_cost table rto c))"

subsection \<open>The symmetric 4-node scenario\<close>

definition table4 :: costTable where
  "table4 =
     [(0, 0, 0), (0, 1, 1), (0, 2, 2), (0, 3, 3),
      (1, 0, 1), (1, 1, 0), (1, 2, 1), (1, 3, 2),
      (2, 0, 2), (2, 1, 1), (2, 2, 0), (2, 3, 1),
      (3, 0, 3), (3, 1, 2), (3, 2, 1), (3, 3, 0)]"

definition configs4 :: configs where
  "configs4 = \<lparr> dimension = 4, fixedOriginIndex = Some 0, returnToOrigin = Some True,
                populationSize = Some 6, maxGens = Some 50, maxChrAge = None,
                eliteCount = None \<rparr>"

definition ga4 :: ga where
  "ga4 = \<lparr> costTable = table4, configs = configs4, isOriginFixed = True,
           returnToOriginFlag = True, populationSizeField = 6, isProblemLarge = False,
           eliteCountField = 2, maxGensField = 50, maxChromosomeAge = 250 \<rparr>"

subsection \<open>A large 4-node problem\<close>

text \<open>
  The table of the 4-node scenario with no fixed origin, population size 3 and one elite:
  the 24 tours exceed the population size, so the problem is large.
\<close>

definition configsL :: configs where
  "configsL = \<lparr> dimension = 4, fixedOriginIndex = None, returnToOrigin = Some True,
                populationSize = Some 3, maxGens = Some 50, maxChrAge = None,
                eliteCount = Some 1 \<rparr>"

definition gaL :: ga where
  "gaL = \<lparr> costTable = table4, configs = configsL, isOriginFixed = False,
           returnToOriginFlag = True, populationSizeField = 3, isProblemLarge = True,
           eliteCountField = 1, maxGensField = 50, maxChromosomeAge = 250 \<rparr>"

definition population1 :: population where
  "population1 = [[0, 1, 2, 3], [1, 0, 2, 3], [1, 3, 0, 2]]"

definition evaluated1 :: evaluatedPopulation where
  "evaluated1 = [([0, 1, 2, 3], Num (1 / 3)), ([1, 0, 2, 3], Num (1 / 6)), ([1, 3, 0, 2], Num (1 / 8))]"

definition state1 :: state where
  "state1 =
     \<lparr> generationCount = 1,
       solution =
         \<lparr> solvedIn = Some 0, generations = Some 1, solutionChr = Some [0, 1, 2, 3],
           bestCost = Some (Num 3), bestCostGeneration = Some 1,
           worstCost = Some (Num 8), worstCostGeneration = Some 1,
           bestCostHistory = Some [Num 3], worstCostHistory = Some [Num 8] \<rparr> \<rparr>"

subsection \<open>Reading the cost histories\<close>

text \<open>
  \<open>history[generation]\<close> for a history and a generation of the solution record; \<open>None\<close> is
  \<open>undefined\<close>. \<open>history_length\<close> is the number of costs pushed so far and \<open>pushed\<close> is
  \<open>history = history || []; history.push(x)\<close>.
\<close>

definition history_at :: "number list option \<Rightarrow> int option \<Rightarrow> number option" where
  "history_at history generation =
     (case history of
        None \<Rightarrow> None
      | Some h \<Rightarrow> (case generation of None \<Rightarrow> None | Some i \<Rightarrow> js_nth h i))"

definition history_length :: "number list option \<Rightarrow> int" where
  "history_length history = (case history of None \<Rightarrow> 0 | Some h \<Rightarrow> int (length h))"

definition pushed :: "number list option \<Rightarrow> number \<Rightarrow> number list option" where
  "pushed history x = Some ((case history of None \<Rightarrow> [] | Some h \<Rightarrow> h) @ [x])"

text \<open>
  The two history conditions of the \<open>pre('validate')\<close> hook of \<open>models/problemModel.ts\<close>
  (its comment: BestCostHistory includes BestCostFound, WorstCostHistory includes
  WorstCostFound): the hook rejects a record with
  \<open>bestCostHistory[bestCostGeneration] !== bestCost\<close> or
  \<open>worstCostHistory[worstCostGeneration] !== worstCost\<close>. The fields are defined when the
  conditions are read (the hook has thrown before otherwise), and a read outside a history
  is \<open>undefined\<close>, which differs from every cost.
\<close>

definition history_includes_costs :: "solution \<Rightarrow> bool" where
  "history_includes_costs s =
     (history_at (bestCostHistory s) (bestCostGeneration s) = bestCost s \<and>
      history_at (worstCostHistory s) (worstCostGeneration s) = worstCost s)"

text \<open>
  The state of the statistics after \<open>n\<close> registrations: both histories hold \<open>n\<close> costs, and
  the best and the worst cost stand in their histories at their generation minus one.
\<close>

definition stats_ok :: "int \<Rightarrow> solution \<Rightarrow> bool" where
  "stats_ok n s =
     (history_length (bestCostHistory s) = n \<and> history_length (worstCostHistory s) = n \<and>
      bestCost s \<noteq> None \<and> worstCost s \<noteq> None \<and>
      history_at (bestCostHistory s) (map_option (\<lambda>g. g - 1) (bestCostGeneration s))
        = bestCost s \<and>
      history_at (worstCostHistory s) (map_option (\<lambda>g. g - 1) (worstCostGeneration s))
        = worstCost s)"


subsection \<open>The second generation of the large problem\<close>

text \<open>
  One pass of \<open>_evolvePopulation\<close> over \<open>evaluated1\<close>: a mutant of \<open>[1,0,2,3]\<close>, then the
  offspring of two crossovers that are not in the last generation.
\<close>

definition evolved2 :: population where
  "evolved2 = [[2, 0, 1, 3], [3, 1, 2, 0], [1, 2, 0, 3]]"

definition generation2 :: evaluatedPopulation where
  "generation2 =
     [([1, 2, 0, 3], Num (1 / 8)), ([2, 0, 1, 3], Num (1 / 6)),
      ([1, 3, 0, 2], Num (1 / 8)), ([1, 0, 2, 3], Num (1 / 6))]"

definition state2 :: state where
  "state2 =
     \<lparr> generationCount = 2,
       solution =
         \<lparr> solvedIn = Some 0, generations = Some 2, solutionChr = Some [0, 1, 2, 3],
           bestCost = Some (Num 3), bestCostGeneration = Some 1,
           worstCost = Some (Num 8), worstCostGeneration = Some 1,
           bestCostHistory = Some [Num 3, Num 6], worstCostHistory = Some [Num 8, Num 8] \<rparr> \<rparr>"


subsection \<open>A table with a zero cost between different nodes\<close>

text \<open>
  Three nodes, of which 0 and 1 are at cost 0 from each other (two places so close that
  the duration or the truncated distance between them is 0) and node 2 is at cost 5 from
  both.
\<close>

definition tableZ :: costTable where
  "tableZ =
     [(0, 0, 0), (0, 1, 0), (0, 2, 5),
      (1, 0, 0), (1, 1, 0), (1, 2, 5),
      (2, 0, 5), (2, 1, 5), (2, 2, 0)]"

definition configsZ :: configs where
  "configsZ = \<lparr> dimension = 3, fixedOriginIndex = None, returnToOrigin = Some True,
                populationSize = Some 3, maxGens = Some 50, maxChrAge = None,
                eliteCount = Some 1 \<rparr>"

definition gaZ :: ga where
  "gaZ = \<lparr> costTable = tableZ, configs = configsZ, isOriginFixed = False,
           returnToOriginFlag = True, populationSizeField = 3, isProblemLarge = True,
           eliteCountField = 1, maxGensField = 50, maxChromosomeAge = 250 \<rparr>"


section \<open>Properties\<close>

subsection \<open>Evaluator\<close>

lemma GA_configs4: "GA table4 configs4 = Inr ga4"
  by (simp add: GA_def configs4_def ga4_def POPULATION_SIZE_def ELITE_COUNT_def
      MAX_CHROMOSOME_AGE_def fact_js.simps)

lemma getRouteCost_ga4:
  "getRouteCost ga4 0 1 = Inr 1" "getRouteCost ga4 1 2 = Inr 1" "getRouteCost ga4 2 3 = Inr 1"
  "getRouteCost ga4 3 0 = Inr 3"
  by (simp_all add: getRouteCost_def ga4_def table4_def configs4_def js_nth_def)

text \<open>
  C1. The claim: the fitness of a tour is 1 over the sum of its edges, plus the edge back
  to the first gene exactly when \<open>returnToOrigin\<close> is true, so that the tour \<open>[0,1,2,3]\<close>
  of the 4-node table costs 6. On the code the closing edge is guarded by
  \<open>firstGene && lastGene\<close>, which is false for gene 0: the tour \<open>[0,1,2,3]\<close> is given the
  fitness \<open>1 / 3\<close> (cost 3), where the specification's formula gives \<open>1 / 6\<close>.
\<close>

theorem C1_fitness_misses_closing_edge:
  "evaluateChromosomeFitness ga4 [0, 1, 2, 3] = Inr (Num (1 / 3))
   \<and> spec_fitness table4 True [0, 1, 2, 3] = Num (1 / 6)
   \<and> evaluateChromosomeFitness ga4 [1, 2, 3, 0] = Inr (Num (1 / 5))
   \<and> evaluateChromosomeFitness ga4 [1, 0, 3, 2] = Inr (Num (1 / 6))"
  by (simp add: evaluateChromosomeFitness_def getRouteCost_def ga4_def table4_def configs4_def
      js_nth_def spec_fitness_def spec_cost_def entry_def lessThan_nat_numeral lessThan_Suc)

subsection \<open>Sorting on concrete arrays\<close>

lemmas quickSort_eval =
  quickSort_def quickSort_range_unfold scan_up.simps scan_down.simps partition_loop.simps
  partition_qs_def
  choosePivot_def fitness_at_def js_nth_def swap_def

lemmas table4_eval =
  evaluatePopulationFitness_def strToChr_def new_Set_def set_add_def
  evaluateChromosomeFitness_def getRouteCost_def table4_def js_nth_def

lemma GA_configsL: "GA table4 configsL = Inr gaL"
  by (simp add: GA_def configsL_def gaL_def MAX_CHROMOSOME_AGE_def fact_js.simps)

lemma evaluatePopulationFitness_population1:
  "evaluatePopulationFitness gaL population1 = Inr evaluated1"
  by (simp add: table4_eval population1_def evaluated1_def gaL_def configsL_def)

lemma quickSort_evaluated1:
  "quickSort evaluated1 =
     Some (Inr [([1, 3, 0, 2], Num (1 / 8)), ([1, 0, 2, 3], Num (1 / 6)), ([0, 1, 2, 3], Num (1 / 3))])"
  by (simp add: quickSort_eval evaluated1_def)

lemma registerSolutionStats_evaluated1:
  "registerSolutionStats \<lparr> generationCount = 1, solution = no_solution \<rparr> 0 evaluated1
     = Some (Inr state1)"
  by (simp add: registerSolutionStats_def quickSort_evaluated1 js_nth_def no_solution_def
      state1_def Let_def)

lemma solve_reaches_state1: "solve_reaches gaL state1 evaluated1"
  by (rule solve_reaches.seeded [OF evaluatePopulationFitness_population1
        registerSolutionStats_evaluated1])

subsection \<open>Statistics\<close>

lemma history_at_pushed_new:
  "history_length history = n \<Longrightarrow> history_at (pushed history x) (Some n) = Some x"
  by (auto simp: history_at_def history_length_def pushed_def js_nth_def nth_append split: option.splits)

lemma history_at_pushed_old:
  "history_at history generation = Some y \<Longrightarrow> history_at (pushed history x) generation = Some y"
  by (auto simp: history_at_def pushed_def js_nth_def nth_append split: option.splits if_splits)

lemma history_length_pushed:
  "history_length (pushed history x) = history_length history + 1"
  by (auto simp: history_length_def pushed_def split: option.splits)

lemma history_length_None: "history_length None = 0"
  by (simp add: history_length_def)

lemma js_not_None: "\<not> js_not c \<Longrightarrow> c \<noteq> None"
  by (cases c) auto

lemma registerSolutionStats_fields:
  assumes "registerSolutionStats st elapsed population = Some (Inr st')"
  shows "\<exists>b w.
    generationCount st' = generationCount st \<and>
    bestCostHistory (solution st') = pushed (bestCostHistory (solution st)) b \<and>
    worstCostHistory (solution st') = pushed (worstCostHistory (solution st)) w \<and>
    ((bestCost (solution st') = Some b \<and> bestCostGeneration (solution st') = Some (generationCount st))
     \<or> (bestCost (solution st) \<noteq> None \<and> bestCost (solution st') = bestCost (solution st)
        \<and> bestCostGeneration (solution st') = bestCostGeneration (solution st))) \<and>
    ((worstCost (solution st') = Some w \<and> worstCostGeneration (solution st') = Some (generationCount st))
     \<or> (worstCost (solution st) \<noteq> None \<and> worstCost (solution st') = worstCost (solution st)
        \<and> worstCostGeneration (solution st') = worstCostGeneration (solution st)))"
proof -
  from assms obtain sortedPopulation bestChromosome worstChromosome where
    q: "quickSort population = Some (Inr sortedPopulation)"
      "js_nth sortedPopulation (int (length sortedPopulation) - 1) = Some bestChromosome"
      "js_nth sortedPopulation 0 = Some worstChromosome"
    by (auto simp: registerSolutionStats_def split: option.splits sum.splits)
  let ?b = "one_over (snd bestChromosome)" and ?w = "one_over (snd worstChromosome)"
  have 1: "generationCount st' = generationCount st"
    using assms q by (auto simp: registerSolutionStats_def Let_def)
  have 2: "bestCostHistory (solution st') = pushed (bestCostHistory (solution st)) ?b"
    using assms q by (auto simp: registerSolutionStats_def Let_def pushed_def)
  have 3: "worstCostHistory (solution st') = pushed (worstCostHistory (solution st)) ?w"
    using assms q by (auto simp: registerSolutionStats_def Let_def pushed_def)
  have 4: "(bestCost (solution st') = Some ?b
        \<and> bestCostGeneration (solution st') = Some (generationCount st))
     \<or> (bestCost (solution st) \<noteq> None \<and> bestCost (solution st') = bestCost (solution st)
        \<and> bestCostGeneration (solution st') = bestCostGeneration (solution st))"
    using assms q by (auto simp: registerSolutionStats_def Let_def js_not_None)
  have 5: "(worstCost (solution st') = Some ?w
        \<and> worstCostGeneration (solution st') = Some (generationCount st))
     \<or> (worstCost (solution st) \<noteq> None \<and> worstCost (solution st') = worstCost (solution st)
        \<and> worstCostGeneration (solution st') = worstCostGeneration (solution st))"
    using assms q by (auto simp: registerSolutionStats_def Let_def js_not_None)
  from 1 2 3 4 5 show ?thesis by blast
qed

lemma register_first:
  assumes "registerSolutionStats \<lparr> generationCount = 1, solution = no_solution \<rparr> elapsed population
     = Some (Inr st')"
  shows "generationCount st' = 1 \<and> stats_ok 1 (solution st')"
proof -
  from registerSolutionStats_fields [OF assms] obtain b w where
    "generationCount st' = 1"
    "bestCostHistory (solution st') = pushed None b"
    "worstCostHistory (solution st') = pushed None w"
    "bestCost (solution st') = Some b" "bestCostGeneration (solution st') = Some 1"
    "worstCost (solution st') = Some w" "worstCostGeneration (solution st') = Some 1"
    by (auto simp: no_solution_def)
  then show ?thesis
    by (simp add: stats_ok_def history_length_pushed history_at_pushed_new history_length_None)
qed

lemma register_next:
  assumes reg: "registerSolutionStats (st\<lparr> generationCount := n + 1 \<rparr>) elapsed population
     = Some (Inr st')"
    and ok: "stats_ok n (solution st)"
  shows "generationCount st' = n + 1 \<and> stats_ok (n + 1) (solution st')"
proof -
  from registerSolutionStats_fields [OF reg] obtain b w where
    gc: "generationCount st' = n + 1"
    and bh: "bestCostHistory (solution st') = pushed (bestCostHistory (solution st)) b"
    and wh: "worstCostHistory (solution st') = pushed (worstCostHistory (solution st)) w"
    and bc: "(bestCost (solution st') = Some b \<and> bestCostGeneration (solution st') = Some (n + 1))
     \<or> (bestCost (solution st') = bestCost (solution st)
        \<and> bestCostGeneration (solution st') = bestCostGeneration (solution st))"
    and wc: "(worstCost (solution st') = Some w \<and> worstCostGeneration (solution st') = Some (n + 1))
     \<or> (worstCost (solution st') = worstCost (solution st)
        \<and> worstCostGeneration (solution st') = worstCostGeneration (solution st))"
    by auto
  from ok have len: "history_length (bestCostHistory (solution st)) = n"
      "history_length (worstCostHistory (solution st)) = n"
    and old: "bestCost (solution st) \<noteq> None" "worstCost (solution st) \<noteq> None"
      "history_at (bestCostHistory (solution st))
         (map_option (\<lambda>g. g - 1) (bestCostGeneration (solution st))) = bestCost (solution st)"
      "history_at (worstCostHistory (solution st))
         (map_option (\<lambda>g. g - 1) (worstCostGeneration (solution st))) = worstCost (solution st)"
    by (auto simp: stats_ok_def)
  have best: "bestCost (solution st') \<noteq> None \<and>
      history_at (bestCostHistory (solution st'))
        (map_option (\<lambda>g. g - 1) (bestCostGeneration (solution st'))) = bestCost (solution st')"
    using bc old len by (auto simp: bh history_at_pushed_new history_at_pushed_old)
  have worst: "worstCost (solution st') \<noteq> None \<and>
      history_at (worstCostHistory (solution st'))
        (map_option (\<lambda>g. g - 1) (worstCostGeneration (solution st'))) = worstCost (solution st')"
    using wc old len by (auto simp: wh history_at_pushed_new history_at_pushed_old)
  show ?thesis
    using best worst len by (simp add: gc stats_ok_def bh wh history_length_pushed)
qed

lemma solve_reaches_stats_ok:
  "solve_reaches g st evaluated \<Longrightarrow> stats_ok (generationCount st) (solution st)"
proof (induction rule: solve_reaches.induct)
  case (seeded population evaluated elapsed st)
  then show ?case using register_first by fastforce
next
  case (evolved st evaluated evolvedPopulation nextGeneration elapsed st')
  then show ?case using register_next [where st = st and n = "generationCount st"] by fastforce
qed


text \<open>
  C4. The claim: after at least one registration
  \<open>bestCostHistory[bestCostGeneration] = bestCost\<close>, and the same for the worst cost; the
  \<open>pre('validate')\<close> hook of the problem model asserts both. On the code the seeder has
  incremented the generation counter to 1 before the first registration, while the
  histories are filled from index 0: after the first registration of a solve both
  histories hold one cost, \<open>bestCostGeneration\<close> and \<open>worstCostGeneration\<close> are 1, the reads
  at index 1 are \<open>undefined\<close>, and the hook's conditions fail.
\<close>

theorem C4_history_at_generation_undefined:
  "solve_reaches gaL state1 evaluated1
   \<and> bestCostHistory (solution state1) = Some [Num 3]
   \<and> bestCostGeneration (solution state1) = Some 1
   \<and> history_at (bestCostHistory (solution state1)) (bestCostGeneration (solution state1)) = None
   \<and> bestCost (solution state1) = Some (Num 3)
   \<and> worstCostHistory (solution state1) = Some [Num 8]
   \<and> worstCostGeneration (solution state1) = Some 1
   \<and> history_at (worstCostHistory (solution state1)) (worstCostGeneration (solution state1)) = None
   \<and> worstCost (solution state1) = Some (Num 8)
   \<and> \<not> history_includes_costs (solution state1)"
proof -
  have "bestCostHistory (solution state1) = Some [Num 3]"
    "bestCostGeneration (solution state1) = Some 1"
    "history_at (bestCostHistory (solution state1)) (bestCostGeneration (solution state1)) = None"
    "bestCost (solution state1) = Some (Num 3)"
    "worstCostHistory (solution state1) = Some [Num 8]"
    "worstCostGeneration (solution state1) = Some 1"
    "history_at (worstCostHistory (solution state1)) (worstCostGeneration (solution state1)) = None"
    "worstCost (solution state1) = Some (Num 8)"
    "\<not> history_includes_costs (solution state1)"
    by (simp_all add: state1_def history_at_def js_nth_def history_includes_costs_def)
  with solve_reaches_state1 show ?thesis by simp
qed

text \<open>
  The extent of the defect: in every run of \<open>solve\<close> the recorded generations are one more
  than the index at which the best and the worst cost stand in their histories.
\<close>

lemma recorded_generation_is_index_plus_one:
  assumes "solve_reaches g st evaluated"
  shows "bestCost (solution st) \<noteq> None
    \<and> history_at (bestCostHistory (solution st))
         (map_option (\<lambda>generation. generation - 1) (bestCostGeneration (solution st)))
       = bestCost (solution st)
    \<and> worstCost (solution st) \<noteq> None
    \<and> history_at (worstCostHistory (solution st))
         (map_option (\<lambda>generation. generation - 1) (worstCostGeneration (solution st)))
       = worstCost (solution st)"
  using solve_reaches_stats_ok [OF assms] by (simp add: stats_ok_def)

subsection \<open>Survival\<close>

lemmas random_eval = random_js_def first_locus_bound_def

lemma hasEndingConditionsMet_state1: "\<not> hasEndingConditionsMet gaL state1"
  by (simp add: hasEndingConditionsMet_def gaL_def state1_def)

text \<open>
  The evolved population of the second generation comes from the last generation by the
  solver's own operators: the mutant of \<open>[1,0,2,3]\<close>, and the offspring of two crossovers
  (of which \<open>[1,3,0,2]\<close> and \<open>[1,0,2,3]\<close> are in the last generation and are skipped).
\<close>

lemmas set_eval = strToChr_def chrToStr_def new_Set_def set_add_def

lemma evolved2_mutant:
  "mutate gaL [1, 0, 2, 3] [(0, 1 / 4)] (1 / 2) = Some (Inr [2, 0, 1, 3])"
  unfolding mutate_def Let_def
  apply (simp add: set_eval random_eval gaL_def configsL_def)
  apply (simp add: js_slice_def)
  apply (simp add: js_splice_def)
  apply (simp add: set_eval)
  done

lemma mate_loci_evolved2:
  "mate_loci gaL (1 / 4) [1 / 4, 1 / 2] = Some [1, 2]"
  "mate_loci gaL (1 / 4) [3 / 4, 1 / 2] = Some [3, 2]"
  unfolding mate_loci_def Let_def
  by (simp_all add: random_eval gaL_def configsL_def)

lemma evolved2_offspring:
  "mate gaL [[0, 1, 2, 3], [1, 3, 0, 2]] (1 / 4) [1 / 4, 1 / 2]
     = Some (Inr [[3, 1, 2, 0], [1, 3, 0, 2]])"
  "mate gaL [[1, 0, 2, 3], [1, 3, 0, 2]] (1 / 4) [3 / 4, 1 / 2]
     = Some (Inr [[1, 0, 2, 3], [1, 2, 0, 3]])"
  unfolding mate_def Let_def
   apply (simp_all add: mate_loci_evolved2 set_eval)
   apply (simp_all add: js_nth_def index_of_gene_def)
   apply (simp_all add: js_splice_def)
   apply (simp_all add: set_eval)
  done

lemma evaluatePopulationFitness_evolved2:
  "evaluatePopulationFitness gaL evolved2
     = Inr [([2, 0, 1, 3], Num (1 / 6)), ([3, 1, 2, 0], Num (1 / 5)), ([1, 2, 0, 3], Num (1 / 8))]"
  by (simp add: table4_eval evolved2_def gaL_def configsL_def)

lemma quickSort_evolved2:
  "quickSort [([2, 0, 1, 3], Num (1 / 6)), ([3, 1, 2, 0], Num (1 / 5)), ([1, 2, 0, 3], Num (1 / 8))]
     = Some (Inr [([1, 2, 0, 3], Num (1 / 8)), ([2, 0, 1, 3], Num (1 / 6)),
                  ([3, 1, 2, 0], Num (1 / 5))])"
  by (simp add: quickSort_eval)

lemma eliteCountField_gaL: "eliteCountField gaL = 1"
  by (simp add: gaL_def)

lemma survivalSelection_evolved2:
  "survivalSelection gaL evaluated1 evolved2 = Some (Inr generation2)"
  by (simp add: survivalSelection_def quickSort_evaluated1 evaluatePopulationFitness_evolved2
      quickSort_evolved2 generation2_def js_splice_def js_slice_def new_Map_def
      eliteCountField_gaL)

lemma quickSort_generation2:
  "quickSort generation2
     = Some (Inr [([1, 3, 0, 2], Num (1 / 8)), ([1, 2, 0, 3], Num (1 / 8)),
                  ([1, 0, 2, 3], Num (1 / 6)), ([2, 0, 1, 3], Num (1 / 6))])"
  by (simp add: quickSort_eval generation2_def)

lemma registerSolutionStats_generation2:
  "registerSolutionStats (state1\<lparr> generationCount := generationCount state1 + 1 \<rparr>) 0 generation2
     = Some (Inr state2)"
  by (simp add: registerSolutionStats_def quickSort_generation2 js_nth_def state1_def state2_def
      Let_def)

lemma solve_reaches_state2: "solve_reaches gaL state2 generation2"
  by (rule solve_reaches.evolved [OF solve_reaches_state1 hasEndingConditionsMet_state1
        survivalSelection_evolved2 registerSolutionStats_generation2])

text \<open>
  C2. The claim: the next generation holds the \<open>E\<close> chromosomes of the previous generation
  with the highest fitness, which replace the bottom \<open>E\<close> entries of the evolved generation.
  On the code both arrays are sorted ascending, the splice removes the last \<open>E\<close> entries of
  the evolved generation (its best) and inserts \<open>slice(0, E + 1)\<close> of the previous one (its
  worst). With \<open>E = 1\<close>: the best chromosome \<open>[0,1,2,3]\<close> of the previous generation is not
  in the next one, its two worst are, and the best evolved chromosome \<open>[3,1,2,0]\<close> is the one
  removed.
\<close>

theorem C2_elite_not_preserved:
  "survivalSelection gaL evaluated1 evolved2 = Some (Inr generation2)
   \<and> eliteCountField gaL = 1
   \<and> quickSort evaluated1
       = Some (Inr [([1, 3, 0, 2], Num (1 / 8)), ([1, 0, 2, 3], Num (1 / 6)),
                    ([0, 1, 2, 3], Num (1 / 3))])
   \<and> \<not> map_has generation2 [0, 1, 2, 3]
   \<and> map_has generation2 [1, 3, 0, 2] \<and> map_has generation2 [1, 0, 2, 3]
   \<and> evaluatePopulationFitness gaL evolved2
       = Inr [([2, 0, 1, 3], Num (1 / 6)), ([3, 1, 2, 0], Num (1 / 5)),
              ([1, 2, 0, 3], Num (1 / 8))]
   \<and> \<not> map_has generation2 [3, 1, 2, 0]
   \<and> map_has generation2 [1, 2, 0, 3]"
proof -
  have "\<not> map_has generation2 [0, 1, 2, 3]" "map_has generation2 [1, 3, 0, 2]"
    "map_has generation2 [1, 0, 2, 3]" "\<not> map_has generation2 [3, 1, 2, 0]"
    "map_has generation2 [1, 2, 0, 3]"
    by (simp_all add: map_has_def generation2_def)
  then show ?thesis
    by (simp add: survivalSelection_evolved2 eliteCountField_gaL quickSort_evaluated1
        evaluatePopulationFitness_evolved2)
qed

text \<open>
  C3. The claim: in a large problem every generation that \<open>_survivalSelection\<close> returns has
  exactly \<open>P\<close> distinct chromosomes. On the code the splice removes \<open>E\<close> entries and inserts
  \<open>E + 1\<close>: with \<open>P = 3\<close> and \<open>E = 1\<close> the second generation of the solve holds 4 distinct
  chromosomes.
\<close>

theorem C3_generation_exceeds_population_size:
  "GA table4 configsL = Inr gaL
   \<and> isProblemLarge gaL \<and> populationSizeField gaL = 3
   \<and> length population1 = 3 \<and> length evolved2 = 3
   \<and> solve_reaches gaL state1 evaluated1
   \<and> survivalSelection gaL evaluated1 evolved2 = Some (Inr generation2)
   \<and> solve_reaches gaL state2 generation2
   \<and> length generation2 = 4 \<and> distinct (map fst generation2)"
proof -
  have "isProblemLarge gaL" "populationSizeField gaL = 3"
    by (simp_all add: gaL_def)
  moreover have "length population1 = 3" "length evolved2 = 3"
    "length generation2 = 4" "distinct (map fst generation2)"
    by (simp_all add: generation2_def population1_def evolved2_def)
  ultimately show ?thesis
    by (simp add: GA_configsL solve_reaches_state1 survivalSelection_evolved2
        solve_reaches_state2)
qed



subsection \<open>Sets and tours\<close>

lemma set_add_distinct: "distinct s \<Longrightarrow> distinct (set_add s x)"
  by (simp add: set_add_def)

lemma set_set_add: "set (set_add s x) = insert x (set s)"
  by (auto simp: set_add_def)

lemma foldl_set_add_distinct: "distinct acc \<Longrightarrow> distinct (foldl set_add acc xs)"
  by (induction xs arbitrary: acc) (simp_all add: set_add_distinct)

lemma foldl_set_add_append:
  "distinct (acc @ xs) \<Longrightarrow> foldl set_add acc xs = acc @ xs"
  by (induction xs arbitrary: acc) (simp_all add: set_add_def)

lemma foldl_set_add_set: "set (foldl set_add acc xs) = set acc \<union> set xs"
  by (induction xs arbitrary: acc) (auto simp: set_set_add)

lemma new_Set_distinct: "distinct (new_Set xs)"
  by (simp add: new_Set_def foldl_set_add_distinct)

lemma new_Set_id: "distinct xs \<Longrightarrow> new_Set xs = xs"
  using foldl_set_add_append [of "[]" xs] by (simp add: new_Set_def)

lemma set_new_Set: "set (new_Set xs) = set xs"
  by (simp add: new_Set_def foldl_set_add_set)

lemma is_tour_mset: "is_tour n c \<longleftrightarrow> mset c = mset [0..n - 1]"
proof
  assume "is_tour n c"
  then have "mset (sort c) = mset [0..n - 1]" by (simp add: is_tour_def)
  then show "mset c = mset [0..n - 1]" by simp
next
  assume "mset c = mset [0..n - 1]"
  then have "sort c = [0..n - 1]"
    by (intro properties_for_sort) simp_all
  then show "is_tour n c" by (simp add: is_tour_def)
qed

lemma is_tour_distinct: "is_tour n c \<Longrightarrow> distinct c"
  using mset_eq_imp_distinct_iff [of c "[0..n - 1]"] by (simp add: is_tour_mset)

lemma is_tour_set: "is_tour n c \<Longrightarrow> set c = {0..n - 1}"
  using mset_eq_setD [of c "[0..n - 1]"] by (simp add: is_tour_mset)

lemma is_tour_length: "is_tour n c \<Longrightarrow> length c = nat n"
  using mset_eq_length [of c "[0..n - 1]"] by (simp add: is_tour_mset)


lemma js_slice_sublist: "\<exists>pre post. xs = pre @ js_slice xs f t @ post"
proof -
  obtain m n where "js_slice xs f t = take n (drop m xs)"
    by (simp add: js_slice_def Let_def)
  moreover have "xs = take m xs @ take n (drop m xs) @ drop n (drop m xs)"
    by (simp only: append_take_drop_id)
  ultimately show ?thesis by metis
qed

lemma filter_out_middle:
  "distinct (pre @ mid @ post) \<Longrightarrow> filter (\<lambda>x. x \<notin> set mid) (pre @ mid @ post) = pre @ post"
proof -
  assume d: "distinct (pre @ mid @ post)"
  then have "filter (\<lambda>x. x \<notin> set mid) pre = pre" "filter (\<lambda>x. x \<notin> set mid) post = post"
    "filter (\<lambda>x. x \<notin> set mid) mid = []"
    by (auto simp: filter_id_conv filter_empty_conv)
  then show ?thesis by simp
qed

lemma js_splice_insert: "\<exists>k. js_splice xs s 0 items = take k xs @ items @ drop k xs"
proof -
  define len where "len = int (length xs)"
  define s' where "s' = (if s < 0 then max (len + s) 0 else min s len)"
  have "s' \<le> len" "0 \<le> s'" by (auto simp: s'_def len_def)
  then have "min (max 0 0) (len - s') = 0" by simp
  then have "js_splice xs s 0 items = take (nat s') xs @ items @ drop (nat s') xs"
    by (simp add: js_splice_def Let_def len_def [symmetric] s'_def [symmetric])
  then show ?thesis by blast
qed

lemma mutate_result:
  assumes loci: "draw_loci g draws = Some loci"
  shows "\<exists>mutated. mutate g c draws u = Some (Inr mutated)
    \<and> mset mutated = mset (strToChr c) \<and> distinct mutated"
proof -
  define chromosome where "chromosome = strToChr c"
  obtain locusA locusB where ab: "loci = (locusA, locusB)" by (cases loci)
  define firstLocus where "firstLocus = (if locusA > locusB then locusB else locusA)"
  define lastLocus where "lastLocus = (if locusA > locusB then locusA else locusB)"
  define part where "part = js_slice chromosome firstLocus (lastLocus + 1)"
  define remaining where "remaining = filter (\<lambda>gene. gene \<notin> set (rev part)) chromosome"
  define pos where "pos = random_js (first_locus_bound g) (int (length remaining)) u"
  define arr where "arr = js_splice remaining pos 0 (rev part)"
  have d: "distinct chromosome" by (simp add: chromosome_def strToChr_def new_Set_distinct)
  obtain pre post where split: "chromosome = pre @ part @ post"
    using js_slice_sublist [of chromosome firstLocus "lastLocus + 1"] by (auto simp: part_def)
  have rem: "remaining = pre @ post"
    using d filter_out_middle [of pre part post] by (simp add: remaining_def split)
  obtain k where arr': "arr = take k remaining @ rev part @ drop k remaining"
    using js_splice_insert [of remaining pos "rev part"] by (auto simp: arr_def)
  have "mset (take k remaining) + mset (drop k remaining) = mset remaining"
    using mset_append [of "take k remaining" "drop k remaining"] by simp
  then have "mset arr = mset remaining + mset part"
    by (simp add: arr')
  also have "\<dots> = mset chromosome"
    by (simp add: rem split)
  finally have m: "mset arr = mset chromosome" .
  then have len: "length arr = length chromosome" and da: "distinct arr"
    using d mset_eq_length mset_eq_imp_distinct_iff by blast+
  have "mutate g c draws u = Some (Inr (chrToStr (new_Set arr)))"
    using len
    by (simp add: mutate_def Let_def loci ab chromosome_def [symmetric] firstLocus_def [symmetric]
        lastLocus_def [symmetric] part_def [symmetric] remaining_def [symmetric, simplified]
        pos_def [symmetric] arr_def [symmetric, simplified])
  then show ?thesis
    using m da by (simp add: chrToStr_def new_Set_id chromosome_def)
qed

subsection \<open>Mutation\<close>

lemma foldl_set_add_hd: "acc \<noteq> [] \<Longrightarrow> hd (foldl set_add acc xs) = hd acc \<and> foldl set_add acc xs \<noteq> []"
  by (induction xs arbitrary: acc) (auto simp: set_add_def)

lemma js_nth_0: "ys \<noteq> [] \<Longrightarrow> js_nth ys 0 = Some (hd ys)"
  by (cases ys) (simp_all add: js_nth_def)

lemma js_nth_new_Set_Cons: "js_nth (new_Set (x # xs)) 0 = Some x"
  using foldl_set_add_hd [of "[x]" xs] by (simp add: new_Set_def set_add_def js_nth_0)

lemma random_js_lower: "0 \<le> u \<Longrightarrow> lo \<le> hi + 1 \<Longrightarrow> lo \<le> random_js lo hi u"
proof -
  assume "0 \<le> u" "lo \<le> hi + 1"
  then have "0 \<le> u * real_of_int (hi - lo + 1)" by simp
  then have "0 \<le> \<lfloor>u * real_of_int (hi - lo + 1)\<rfloor>" by simp
  then show ?thesis by (simp add: random_js_def)
qed

lemma random_js_upper: "0 \<le> u \<Longrightarrow> u < 1 \<Longrightarrow> lo \<le> hi \<Longrightarrow> random_js lo hi u \<le> hi"
proof -
  assume u: "0 \<le> u" "u < 1" and "lo \<le> hi"
  define k where "k = hi - lo + 1"
  from \<open>lo \<le> hi\<close> have k: "0 < real_of_int k" by (simp add: k_def)
  with u have "u * real_of_int k < real_of_int k" by simp
  then have "\<lfloor>u * real_of_int k\<rfloor> < k"
    by (simp only: floor_less_iff)
  then show ?thesis by (simp add: random_js_def k_def [symmetric]) (simp add: k_def)
qed

lemma draw_loci_lower:
  "draw_loci g draws = Some (a, b) \<Longrightarrow> \<forall>(u1, u2) \<in> set draws. unit_draw u1 \<and> unit_draw u2 \<Longrightarrow>
   first_locus_bound g \<le> dimension (configs g) \<Longrightarrow>
   first_locus_bound g \<le> a \<and> first_locus_bound g \<le> b"
proof (induction draws)
  case Nil
  then show ?case by simp
next
  case (Cons d draws)
  obtain u1 u2 where d: "d = (u1, u2)" by (cases d)
  with Cons.prems have u: "0 \<le> u1" "0 \<le> u2" by (auto simp: unit_draw_def)
  show ?case
  proof (cases "random_js (first_locus_bound g) (dimension (configs g) - 1) u1
      = random_js (first_locus_bound g) (dimension (configs g) - 1) u2")
    case True
    with Cons show ?thesis by (simp add: d Let_def)
  next
    case False
    with Cons.prems(1) have "a = random_js (first_locus_bound g) (dimension (configs g) - 1) u1"
      "b = random_js (first_locus_bound g) (dimension (configs g) - 1) u2"
      by (simp_all add: d Let_def)
    with u Cons.prems(3) show ?thesis by (simp add: random_js_lower)
  qed
qed

lemma js_slice_tail: "1 \<le> f \<Longrightarrow> set (js_slice (x # xs) f t) \<subseteq> set xs"
proof -
  assume f: "1 \<le> f"
  define f' where "f' = min f (int (length (x # xs)))"
  from f have "1 \<le> f'" by (simp add: f'_def)
  then obtain m where m: "nat f' = Suc m" by (cases "nat f'") auto
  from f obtain n where "js_slice (x # xs) f t = take n (drop (nat f') (x # xs))"
    by (simp add: js_slice_def Let_def f'_def)
  then have "js_slice (x # xs) f t = take n (drop m xs)" by (simp add: m)
  moreover have "set (take n (drop m xs)) \<subseteq> set (drop m xs)" by (rule set_take_subset)
  moreover have "set (drop m xs) \<subseteq> set xs" by (rule set_drop_subset)
  ultimately show ?thesis by simp
qed

lemma js_splice_head:
  "1 \<le> s \<Longrightarrow> \<exists>ys. js_splice (x # xs) s 0 items = x # ys"
proof -
  assume s: "1 \<le> s"
  define s' where "s' = min s (int (length (x # xs)))"
  from s have "1 \<le> s'" by (simp add: s'_def)
  then obtain m where m: "nat s' = Suc m" by (cases "nat s'") auto
  from s have "js_splice (x # xs) s 0 items
      = take (nat s') (x # xs) @ items @ drop (nat (s' + min 0 (int (length (x # xs)) - s'))) (x # xs)"
    by (simp add: js_splice_def Let_def s'_def)
  then show ?thesis by (simp add: m)
qed

lemma mutate_keeps_origin:
  assumes fixed: "isOriginFixed g" and dim: "1 \<le> dimension (configs g)"
    and draws: "\<forall>(u1, u2) \<in> set draws. unit_draw u1 \<and> unit_draw u2" and u: "unit_draw u"
    and origin: "js_nth (strToChr c) 0 = Some origin"
    and mutated: "mutate g c draws u = Some (Inr mutated)"
  shows "js_nth mutated 0 = Some origin"
proof -
  define chromosome where "chromosome = strToChr c"
  from mutated obtain locusA locusB where loci: "draw_loci g draws = Some (locusA, locusB)"
    by (auto simp: mutate_def Let_def split: option.splits)
  have lo: "first_locus_bound g = 1" using fixed by (simp add: first_locus_bound_def)
  from draw_loci_lower [OF loci draws] dim have ab: "1 \<le> locusA" "1 \<le> locusB"
    by (simp_all add: lo)
  define firstLocus where "firstLocus = (if locusA > locusB then locusB else locusA)"
  define lastLocus where "lastLocus = (if locusA > locusB then locusA else locusB)"
  define part where "part = js_slice chromosome firstLocus (lastLocus + 1)"
  define remaining where "remaining = filter (\<lambda>gene. gene \<notin> set (rev part)) chromosome"
  define pos where "pos = random_js (first_locus_bound g) (int (length remaining)) u"
  define arr where "arr = js_splice remaining pos 0 (rev part)"
  have d: "distinct chromosome" by (simp add: chromosome_def strToChr_def new_Set_distinct)
  from origin obtain rest where chr: "chromosome = origin # rest"
    by (cases chromosome) (auto simp: chromosome_def js_nth_def split: if_splits)
  have "1 \<le> firstLocus" using ab by (simp add: firstLocus_def)
  then have "set part \<subseteq> set rest" unfolding part_def chr by (rule js_slice_tail)
  with d have "origin \<notin> set part" by (auto simp: chr)
  then obtain rest' where rem: "remaining = origin # rest'"
    by (simp add: remaining_def chr)
  have "1 \<le> pos"
    using u random_js_lower [of u 1 "int (length remaining)"] by (simp add: pos_def lo unit_draw_def)
  then obtain ys where arr': "arr = origin # ys"
    using js_splice_head [of pos origin rest' "rev part"] by (auto simp: arr_def rem)
  have res: "mutate g c draws u =
      (if length arr \<noteq> length chromosome
       then Some (Inl (PlainError ''Mutate Offspring chromosomes have incorrect gene count''))
       else Some (Inr (chrToStr (new_Set arr))))"
    by (simp add: mutate_def Let_def loci chromosome_def [symmetric] firstLocus_def [symmetric]
        lastLocus_def [symmetric] part_def [symmetric] remaining_def [symmetric, simplified]
        pos_def [symmetric] arr_def [symmetric, simplified])
  with mutated have "mutated = new_Set arr" by (simp add: chrToStr_def split: if_splits)
  then show ?thesis
    by (simp add: arr' js_nth_new_Set_Cons)
qed

subsection \<open>Crossover: marking and filling\<close>

lemma mark_loci_split:
  "mark_loci parentA parentB offspringA offspringB loci
     = (mark_one offspringA parentB loci, mark_one offspringB parentA loci)"
  by (induction loci arbitrary: offspringA offspringB) simp_all

lemma fill_loci_split:
  "fill_one offspringA parentB loci = Inr a \<Longrightarrow> fill_one offspringB parentA loci = Inr b \<Longrightarrow>
   fill_loci parentA parentB offspringA offspringB loci = Inr (a, b)"
  by (induction loci arbitrary: offspringA offspringB) (auto split: option.splits)

lemma js_indexOf_found:
  "v \<in> set xs \<Longrightarrow>
   0 \<le> js_indexOf xs v \<and> nat (js_indexOf xs v) < length xs \<and> xs ! nat (js_indexOf xs v) = v"
proof (induction xs)
  case Nil
  then show ?case by simp
next
  case (Cons x xs)
  show ?case
  proof (cases "x = v")
    case True
    then show ?thesis by simp
  next
    case False
    with Cons.prems have "v \<in> set xs" by simp
    from Cons.IH [OF this] have i: "0 \<le> js_indexOf xs v" "nat (js_indexOf xs v) < length xs"
      "xs ! nat (js_indexOf xs v) = v" by simp_all
    from i(1) have "nat (js_indexOf xs v + 1) = Suc (nat (js_indexOf xs v))" by simp
    with False i show ?thesis by (simp add: Let_def)
  qed
qed

lemma js_splice_replace:
  "0 \<le> i \<Longrightarrow> nat i < length xs \<Longrightarrow> js_splice xs i 1 [y] = xs[nat i := y]"
proof -
  assume i: "0 \<le> i" "nat i < length xs"
  then have "i < int (length xs)" by simp
  with i have "js_splice xs i 1 [y] = take (nat i) xs @ [y] @ drop (nat (i + 1)) xs"
    by (simp add: js_splice_def Let_def)
  moreover from i have "nat (i + 1) = Suc (nat i)" by simp
  ultimately show ?thesis using i by (simp add: upd_conv_take_nth_drop)
qed

lemma mark_step:
  "v \<in> set xs \<Longrightarrow>
   \<exists>i < length xs. xs ! i = v \<and> js_splice xs (index_of_gene xs (Some v)) 1 [-1] = xs[i := -1]"
  using js_indexOf_found [of v xs] js_splice_replace [of "js_indexOf xs v" xs "-1"]
  by (auto simp: index_of_gene_def)

lemma mset_update_swap:
  "i < length xs \<Longrightarrow> mset (xs[i := y]) + {#xs ! i#} = mset xs + {#y#}"
  by (simp add: mset_update)

lemma set_update_other:
  "w \<in> set xs \<Longrightarrow> w \<noteq> xs ! i \<Longrightarrow> w \<in> set (xs[i := y])"
proof -
  assume "w \<in> set xs" and ne: "w \<noteq> xs ! i"
  then obtain j where j: "j < length xs" "xs ! j = w" by (auto simp: in_set_conv_nth)
  with ne have "j \<noteq> i" by auto
  with j have "(xs[i := y]) ! j = w" "j < length (xs[i := y])" by simp_all
  then show ?thesis by (metis nth_mem)
qed

lemma mark_one_mset:
  "map (js_nth parent) loci = map Some genes \<Longrightarrow> distinct genes \<Longrightarrow> set genes \<subseteq> set offspring \<Longrightarrow>
   mset (mark_one offspring parent loci) + mset genes
     = mset offspring + replicate_mset (length loci) (-1)"
proof (induction loci arbitrary: offspring genes)
  case Nil
  then show ?case by simp
next
  case (Cons locus loci)
  from Cons.prems(1) obtain v gs where genes: "genes = v # gs"
    and v: "js_nth parent locus = Some v" and gs: "map (js_nth parent) loci = map Some gs"
    by (cases genes) auto
  from Cons.prems(3) genes have "v \<in> set offspring" by simp
  from mark_step [OF this] obtain i where i: "i < length offspring" "offspring ! i = v"
    and step: "js_splice offspring (index_of_gene offspring (Some v)) 1 [-1] = offspring[i := -1]"
    by blast
  have "set gs \<subseteq> set (offspring[i := -1])"
    using Cons.prems(2,3) genes i(2) by (auto intro!: set_update_other)
  from Cons.IH [OF gs _ this] Cons.prems(2) genes
  have "mset (mark_one (offspring[i := -1]) parent loci) + mset gs
      = mset (offspring[i := -1]) + replicate_mset (length loci) (-1)" by simp
  moreover have "mset (offspring[i := -1]) + {#v#} = mset offspring + {#-1#}"
    using mset_update_swap [OF i(1), of "-1"] i(2) by simp
  ultimately show ?case
    by (simp add: genes v step)
qed


lemma fill_first_hole_mset:
  "-1 \<in> set xs \<Longrightarrow> mset (fill_first_hole xs gene) + {#-1#} = mset xs + {#gene#}"
  by (induction xs) auto

lemma fill_one_mset:
  "map (js_nth parent) loci = map Some genes \<Longrightarrow> -1 \<notin> set genes \<Longrightarrow>
   length loci \<le> count (mset offspring) (-1) \<Longrightarrow>
   \<exists>filled. fill_one offspring parent loci = Inr filled
     \<and> mset filled + replicate_mset (length loci) (-1) = mset offspring + mset genes"
proof (induction loci arbitrary: offspring genes)
  case Nil
  then show ?case by simp
next
  case (Cons locus loci)
  from Cons.prems(1) obtain v gs where genes: "genes = v # gs"
    and v: "js_nth parent locus = Some v" and gs: "map (js_nth parent) loci = map Some gs"
    by (cases genes) auto
  from Cons.prems(3) have hole: "-1 \<in> set offspring"
    by (metis count_greater_zero_iff length_Cons less_le_trans set_mset_mset zero_less_Suc)
  have step: "mset (fill_first_hole offspring v) + {#-1#} = mset offspring + {#v#}"
    by (rule fill_first_hole_mset [OF hole])
  from Cons.prems(2) genes have "v \<noteq> -1" by auto
  moreover have "count (mset (fill_first_hole offspring v) + {#-1#}) (-1)
      = count (mset offspring + {#v#}) (-1)"
    by (simp only: step)
  ultimately have "count (mset (fill_first_hole offspring v)) (-1) + 1 = count (mset offspring) (-1)"
    by simp
  with Cons.prems(3) have "length loci \<le> count (mset (fill_first_hole offspring v)) (-1)"
    by simp
  from Cons.IH [OF gs _ this] Cons.prems(2) genes obtain filled where
    "fill_one (fill_first_hole offspring v) parent loci = Inr filled"
    "mset filled + replicate_mset (length loci) (-1) = mset (fill_first_hole offspring v) + mset gs"
    by auto
  with step show ?case
    by (simp add: genes v)
qed


lemma select_loci_range:
  "select_loci n lo hi selectedLoci us = Some loci \<Longrightarrow> \<forall>v \<in> set us. unit_draw v \<Longrightarrow>
   lo \<le> hi \<Longrightarrow> distinct selectedLoci \<Longrightarrow> \<forall>l \<in> set selectedLoci. lo \<le> l \<and> l \<le> hi \<Longrightarrow>
   distinct loci \<and> (\<forall>l \<in> set loci. lo \<le> l \<and> l \<le> hi)"
proof (induction us arbitrary: selectedLoci)
  case Nil
  then show ?case by (simp split: if_splits)
next
  case (Cons u us)
  show ?case
  proof (cases "int (length selectedLoci) < n")
    case False
    with Cons.prems show ?thesis by simp
  next
    case True
    define locus where "locus = random_js lo hi u"
    from Cons.prems(2,3) have range: "lo \<le> locus" "locus \<le> hi"
      by (simp_all add: locus_def unit_draw_def random_js_lower random_js_upper)
    show ?thesis
    proof (cases "locus \<in> set selectedLoci")
      case True
      with \<open>int (length selectedLoci) < n\<close> Cons.prems(1)
      have "select_loci n lo hi selectedLoci us = Some loci"
        by (simp add: Let_def locus_def)
      from Cons.IH [OF this] Cons.prems show ?thesis by simp
    next
      case False
      with \<open>int (length selectedLoci) < n\<close> Cons.prems(1)
      have "select_loci n lo hi (selectedLoci @ [locus]) us = Some loci"
        by (simp add: Let_def locus_def)
      from Cons.IH [OF this] Cons.prems False range show ?thesis by simp
    qed
  qed
qed

lemma mate_loci_range:
  assumes "mate_loci g u us = Some loci" and "\<forall>v \<in> set us. unit_draw v"
    and "first_locus_bound g \<le> dimension (configs g) - 1"
  shows "distinct loci \<and> (\<forall>l \<in> set loci. first_locus_bound g \<le> l \<and> l \<le> dimension (configs g) - 1)"
  using select_loci_range [OF assms(1) [unfolded mate_loci_def Let_def] assms(2,3)] by simp

subsection \<open>Crossover: one offspring\<close>

lemma js_nth_in_range: "0 \<le> l \<Longrightarrow> nat l < length xs \<Longrightarrow> js_nth xs l = Some (xs ! nat l)"
  by (auto simp: js_nth_def)

lemma tour_genes:
  assumes par: "is_tour n parent" and loci: "distinct loci" "\<forall>l \<in> set loci. 0 \<le> l \<and> l \<le> n - 1"
  defines "genes \<equiv> map (\<lambda>l. parent ! nat l) loci"
  shows "map (js_nth parent) loci = map Some genes" "distinct genes" "set genes \<subseteq> {0..n - 1}"
proof -
  have len: "length parent = nat n" and d: "distinct parent" and s: "set parent = {0..n - 1}"
    using par by (simp_all add: is_tour_length is_tour_distinct is_tour_set)
  have in_range: "\<And>l. l \<in> set loci \<Longrightarrow> 0 \<le> l \<and> nat l < length parent"
    using loci(2) len by auto
  then show "map (js_nth parent) loci = map Some genes"
    by (simp add: genes_def js_nth_in_range)
  have "inj_on (\<lambda>l. parent ! nat l) (set loci)"
  proof (rule inj_onI)
    fix l l' assume l: "l \<in> set loci" "l' \<in> set loci" and eq: "parent ! nat l = parent ! nat l'"
    from in_range l have "nat l < length parent" "nat l' < length parent" "0 \<le> l" "0 \<le> l'"
      by simp_all
    with d eq have "nat l = nat l'" by (simp add: nth_eq_iff_index_eq)
    with \<open>0 \<le> l\<close> \<open>0 \<le> l'\<close> show "l = l'" by simp
  qed
  with loci(1) show "distinct genes" by (simp add: genes_def distinct_map)
  show "set genes \<subseteq> {0..n - 1}"
    using in_range s by (auto simp: genes_def)
qed

lemma crossover_one:
  assumes off: "is_tour n offspring" and par: "is_tour n parent"
    and loci: "distinct loci" "\<forall>l \<in> set loci. 0 \<le> l \<and> l \<le> n - 1"
  shows "\<exists>child. fill_one (mark_one offspring parent loci) parent (sort loci) = Inr child
    \<and> is_tour n child"
proof -
  define genes where "genes = map (\<lambda>l. parent ! nat l) loci"
  define genes' where "genes' = map (\<lambda>l. parent ! nat l) (sort loci)"
  define marked where "marked = mark_one offspring parent loci"
  note g = tour_genes [OF par loci, folded genes_def]
  have loci': "distinct (sort loci)" "\<forall>l \<in> set (sort loci). 0 \<le> l \<and> l \<le> n - 1"
    using loci by simp_all
  note g' = tour_genes [OF par loci', folded genes'_def]
  have s: "set offspring = {0..n - 1}" using off by (rule is_tour_set)
  have no_hole: "-1 \<notin> set offspring" "-1 \<notin> set genes" "-1 \<notin> set genes'"
    using s g(3) g'(3) by auto
  have same: "mset genes' = mset genes"
    unfolding genes_def genes'_def by simp
  have m: "mset marked + mset genes = mset offspring + replicate_mset (length loci) (-1)"
    unfolding marked_def using g(1,2) g(3) s by (intro mark_one_mset) simp_all
  have "count (mset marked + mset genes) (-1)
      = count (mset offspring + replicate_mset (length loci) (-1)) (-1)"
    by (simp only: m)
  moreover from no_hole have "count (mset genes) (-1) = 0" "count (mset offspring) (-1) = 0"
    by (simp_all add: count_eq_zero_iff)
  ultimately have holes: "count (mset marked) (-1) = length loci"
    by simp
  then have "length (sort loci) \<le> count (mset marked) (-1)" by simp
  from fill_one_mset [OF g'(1) no_hole(3) this] obtain child where
    child: "fill_one marked parent (sort loci) = Inr child"
    and c: "mset child + replicate_mset (length (sort loci)) (-1) = mset marked + mset genes'"
    by blast
  from c m same have "mset child + (replicate_mset (length loci) (-1) + mset genes)
      = mset offspring + (replicate_mset (length loci) (-1) + mset genes)"
    by (simp add: ac_simps)
  then have "mset child = mset offspring" by (simp only: add_right_cancel)
  with off have "is_tour n child" by (simp add: is_tour_mset)
  with child show ?thesis by (auto simp: marked_def)
qed

subsection \<open>Crossover: the fixed origin and both offspring\<close>

lemma mark_one_head:
  "map (js_nth parent) loci = map Some genes \<Longrightarrow> distinct genes \<Longrightarrow> set genes \<subseteq> set rest \<Longrightarrow>
   origin \<notin> set genes \<Longrightarrow> \<exists>rest'. mark_one (origin # rest) parent loci = origin # rest'"
proof (induction loci arbitrary: rest genes)
  case Nil
  then show ?case by simp
next
  case (Cons locus loci)
  from Cons.prems(1) obtain v gs where genes: "genes = v # gs"
    and v: "js_nth parent locus = Some v" and gs: "map (js_nth parent) loci = map Some gs"
    by (cases genes) auto
  from Cons.prems(3,4) genes have "v \<in> set (origin # rest)" "v \<noteq> origin" by auto
  from mark_step [OF this(1)] obtain i where i: "i < length (origin # rest)"
    "(origin # rest) ! i = v"
    and step: "js_splice (origin # rest) (index_of_gene (origin # rest) (Some v)) 1 [-1]
      = (origin # rest)[i := -1]"
    by blast
  from i(2) \<open>v \<noteq> origin\<close> obtain j where j: "i = Suc j" by (cases i) auto
  with i have r: "rest ! j = v" "(origin # rest)[i := -1] = origin # rest[j := -1]" by simp_all
  have "set gs \<subseteq> set (rest[j := -1])"
    using Cons.prems(2,3) genes r(1) by (auto intro!: set_update_other)
  from Cons.IH [OF gs _ this] Cons.prems(2,4) genes
  obtain rest' where "mark_one (origin # rest[j := -1]) parent loci = origin # rest'" by auto
  moreover have "mark_one (origin # rest) parent (locus # loci)
      = mark_one (origin # rest[j := -1]) parent loci"
    by (simp only: mark_one.simps v step r(2))
  ultimately show ?case by simp
qed

lemma fill_one_head:
  "origin \<noteq> -1 \<Longrightarrow> fill_one (origin # rest) parent loci = Inr child \<Longrightarrow> \<exists>rest'. child = origin # rest'"
  by (induction loci arbitrary: rest) (auto split: option.splits)

lemma crossover_one_head:
  assumes off: "is_tour n offspring" and par: "is_tour n parent"
    and loci: "distinct loci" "\<forall>l \<in> set loci. 1 \<le> l \<and> l \<le> n - 1"
    and origin: "js_nth offspring 0 = Some origin" "js_nth parent 0 = Some origin"
    and child: "fill_one (mark_one offspring parent loci) parent (sort loci) = Inr child"
  shows "js_nth child 0 = Some origin"
proof -
  define genes where "genes = map (\<lambda>l. parent ! nat l) loci"
  have loci0: "\<forall>l \<in> set loci. 0 \<le> l \<and> l \<le> n - 1" using loci(2) by auto
  note g = tour_genes [OF par loci(1) loci0, folded genes_def]
  from origin obtain rest prest where o: "offspring = origin # rest" and p: "parent = origin # prest"
    by (cases offspring; cases parent) (auto simp: js_nth_def split: if_splits)
  have dp: "distinct parent" using par by (rule is_tour_distinct)
  have "origin \<notin> set genes"
  proof
    assume "origin \<in> set genes"
    then obtain l where l: "l \<in> set loci" "parent ! nat l = origin" by (auto simp: genes_def)
    with loci(2) obtain k where "nat l = Suc k" by (cases "nat l") auto
    with l(2) have "prest ! k = origin" by (simp add: p)
    moreover from l(1) loci0 \<open>nat l = Suc k\<close> is_tour_length [OF par] have "k < length prest"
      by (auto simp: p)
    ultimately have "origin \<in> set prest" by (metis nth_mem)
    with dp show False by (simp add: p)
  qed
  moreover have "set genes \<subseteq> set offspring"
    using g(3) is_tour_set [OF off] by simp
  ultimately have sub: "set genes \<subseteq> set rest" by (auto simp: o)
  from mark_one_head [OF g(1,2) sub \<open>origin \<notin> set genes\<close>] obtain rest' where
    marked: "mark_one offspring parent loci = origin # rest'" by (auto simp: o)
  have "origin \<in> set offspring" by (simp add: o)
  with is_tour_set [OF off] have "origin \<noteq> -1" by auto
  from fill_one_head [OF this child [unfolded marked]] show ?thesis
    by (auto simp: js_nth_def)
qed

lemma distinct_tours_dimension:
  assumes "is_tour n a" "is_tour n b" "a \<noteq> b"
  shows "2 \<le> n"
proof (rule ccontr)
  assume "\<not> 2 \<le> n"
  then have "length a \<le> 1" "length b \<le> 1"
    using assms(1,2) by (simp_all add: is_tour_length)
  moreover have "set a = set b" using assms(1,2) by (simp add: is_tour_set)
  ultimately have "a = b"
    by (cases a; cases b) auto
  with assms(3) show False by simp
qed

lemma mate_result:
  assumes a: "is_tour n parentA" and b: "is_tour n parentB" and n: "n = dimension (configs g)"
    and bound: "first_locus_bound g \<le> n - 1"
    and us: "\<forall>v \<in> set us. unit_draw v"
    and loci: "mate_loci g u us = Some selectedLoci"
  shows "\<exists>childA childB.
      fill_one (mark_one parentA parentB selectedLoci) parentB (sort selectedLoci) = Inr childA
    \<and> fill_one (mark_one parentB parentA selectedLoci) parentA (sort selectedLoci) = Inr childB
    \<and> is_tour n childA \<and> is_tour n childB
    \<and> mate g [parentA, parentB] u us = Some (Inr (new_Set [childA, childB]))"
proof -
  have lo: "0 \<le> first_locus_bound g" by (simp add: first_locus_bound_def)
  from mate_loci_range [OF loci us] bound n
  have sel: "distinct selectedLoci" "\<forall>l \<in> set selectedLoci. 0 \<le> l \<and> l \<le> n - 1"
    using lo by auto
  from crossover_one [OF a b sel] obtain childA where
    ca: "fill_one (mark_one parentA parentB selectedLoci) parentB (sort selectedLoci) = Inr childA"
      "is_tour n childA" by blast
  from crossover_one [OF b a sel] obtain childB where
    cb: "fill_one (mark_one parentB parentA selectedLoci) parentA (sort selectedLoci) = Inr childB"
      "is_tour n childB" by blast
  have "strToChr parentA = parentA" "strToChr parentB = parentB"
    using a b by (simp_all add: strToChr_def new_Set_id is_tour_distinct)
  then have "mate g [parentA, parentB] u us = Some (Inr (new_Set [childA, childB]))"
    by (simp add: mate_def Let_def loci mark_loci_split fill_loci_split [OF ca(1) cb(1)]
        chrToStr_def)
  with ca cb show ?thesis by blast
qed

subsection \<open>Seeding and the fixed origin\<close>

lemma set_add_head: "s \<noteq> [] \<Longrightarrow> hd (set_add s x) = hd s \<and> set_add s x \<noteq> []"
  by (simp add: set_add_def)

lemma nna_extend_head:
  "nna_extend g chromosome = Inr c \<Longrightarrow> chromosome \<noteq> [] \<Longrightarrow> hd c = hd chromosome \<and> c \<noteq> []"
proof (induction g chromosome rule: nna_extend.induct)
  case (1 g chromosome)
  show ?case
  proof (cases "int (length chromosome) < dimension (configs g)")
    case False
    with "1.prems" show ?thesis by (simp add: nna_extend.simps)
  next
    case True
    with "1.prems"(1) obtain lastGene nearestNeighborCost nextGene where
      step: "js_nth chromosome (int (length chromosome) - 1) = Some lastGene"
        "nearest_neighbor g chromosome lastGene = Inr (nearestNeighborCost, Some nextGene)"
        "nna_extend g (set_add chromosome nextGene) = Inr c"
      by (subst (asm) nna_extend.simps) (auto split: option.splits sum.splits)
    from "1.IH" [OF True step(1) step(2) refl refl step(3)] "1.prems"(2)
    show ?thesis by (simp add: set_add_head)
  qed
qed

lemma random_fill_head:
  "random_fill g chromosome us = Some c \<Longrightarrow> chromosome \<noteq> [] \<Longrightarrow> hd c = hd chromosome \<and> c \<noteq> []"
  by (induction us arbitrary: chromosome) (auto simp: set_add_head split: if_splits)

lemma GA_fields:
  "GA table cfg = Inr g \<Longrightarrow> configs g = cfg \<and> isOriginFixed g = (fixedOriginIndex cfg \<noteq> None)"
  by (auto simp: GA_def Let_def split: sum.splits)

lemma place_origin_fixed:
  "isOriginFixed g \<Longrightarrow> fixedOriginIndex (configs g) = Some origin \<Longrightarrow> place_origin g = Inr [origin]"
  by (simp add: place_origin_def)

lemma nna_chromosome_head:
  assumes "isOriginFixed g" "fixedOriginIndex (configs g) = Some origin"
    and "nna_chromosome g us = Some (Inr c)"
  shows "js_nth c 0 = Some origin"
proof -
  from assms(3) obtain randomNode where "nna_extend g (set_add [origin] randomNode) = Inr c"
    by (auto simp: nna_chromosome_def place_origin_fixed [OF assms(1,2)] split: option.splits)
  from nna_extend_head [OF this] have "hd c = origin" "c \<noteq> []"
    by (simp_all add: set_add_def)
  then show ?thesis by (simp add: js_nth_0)
qed

lemma random_chromosome_head:
  assumes "isOriginFixed g" "fixedOriginIndex (configs g) = Some origin"
    and "random_chromosome g us = Some (Inr c)"
  shows "js_nth c 0 = Some origin"
proof -
  from assms(3) have "random_fill g [origin] us = Some c"
    by (auto simp: random_chromosome_def place_origin_fixed [OF assms(1,2)] split: option.splits)
  from random_fill_head [OF this] have "hd c = origin" "c \<noteq> []" by simp_all
  then show ?thesis by (simp add: js_nth_0)
qed

lemma generateNnaChrs_loop_head:
  assumes "isOriginFixed g" "fixedOriginIndex (configs g) = Some origin"
  shows "generateNnaChrs_loop g n population tapes = Some (Inr result) \<Longrightarrow>
    \<forall>c \<in> set population. js_nth c 0 = Some origin \<Longrightarrow>
    \<forall>c \<in> set result. js_nth c 0 = Some origin"
proof (induction tapes arbitrary: population)
  case Nil
  then show ?case by (simp split: if_splits)
next
  case (Cons us tapes)
  show ?case
  proof (cases "int (length population) < n")
    case False
    with Cons.prems show ?thesis by simp
  next
    case True
    with Cons.prems(1) obtain chromosome where c: "nna_chromosome g us = Some (Inr chromosome)"
      and rest: "generateNnaChrs_loop g n (set_add population (chrToStr chromosome)) tapes
        = Some (Inr result)"
      by (auto split: option.splits sum.splits)
    from nna_chromosome_head [OF assms c] Cons.prems(2)
    have "\<forall>c \<in> set (set_add population (chrToStr chromosome)). js_nth c 0 = Some origin"
      by (auto simp: set_set_add chrToStr_def)
    from Cons.IH [OF rest this] show ?thesis .
  qed
qed

lemma generateRandomChrs_loop_head:
  assumes "isOriginFixed g" "fixedOriginIndex (configs g) = Some origin"
  shows "generateRandomChrs_loop g n population tapes = Some (Inr result) \<Longrightarrow>
    \<forall>c \<in> set population. js_nth c 0 = Some origin \<Longrightarrow>
    \<forall>c \<in> set result. js_nth c 0 = Some origin"
proof (induction tapes arbitrary: population)
  case Nil
  then show ?case by (simp split: if_splits)
next
  case (Cons us tapes)
  show ?case
  proof (cases "int (length population) < n")
    case False
    with Cons.prems show ?thesis by simp
  next
    case True
    with Cons.prems(1) obtain chromosome where c: "random_chromosome g us = Some (Inr chromosome)"
      and rest: "generateRandomChrs_loop g n (set_add population (chrToStr chromosome)) tapes
        = Some (Inr result)"
      by (auto split: option.splits sum.splits)
    from random_chromosome_head [OF assms c] Cons.prems(2)
    have "\<forall>c \<in> set (set_add population (chrToStr chromosome)). js_nth c 0 = Some origin"
      by (auto simp: set_set_add chrToStr_def)
    from Cons.IH [OF rest this] show ?thesis .
  qed
qed

lemma mate_keeps_origin:
  assumes fixed: "isOriginFixed g"
    and a: "is_tour (dimension (configs g)) parentA" and b: "is_tour (dimension (configs g)) parentB"
    and ne: "parentA \<noteq> parentB"
    and origin: "js_nth parentA 0 = Some origin" "js_nth parentB 0 = Some origin"
    and us: "\<forall>v \<in> set us. unit_draw v"
    and mate: "mate g [parentA, parentB] u us = Some (Inr offspring)"
  shows "\<forall>c \<in> set offspring. js_nth c 0 = Some origin"
proof -
  define n where "n = dimension (configs g)"
  have lo: "first_locus_bound g = 1" using fixed by (simp add: first_locus_bound_def)
  from distinct_tours_dimension [OF a b ne] have bound: "first_locus_bound g \<le> n - 1"
    by (simp add: lo n_def)
  from mate obtain selectedLoci where loci: "mate_loci g u us = Some selectedLoci"
    by (auto simp: mate_def Let_def split: option.splits)
  from mate_result [OF a [folded n_def] b [folded n_def] n_def bound us loci]
  obtain childA childB where
    ca: "fill_one (mark_one parentA parentB selectedLoci) parentB (sort selectedLoci) = Inr childA"
    and cb: "fill_one (mark_one parentB parentA selectedLoci) parentA (sort selectedLoci) = Inr childB"
    and res: "mate g [parentA, parentB] u us = Some (Inr (new_Set [childA, childB]))"
    by blast
  from mate_loci_range [OF loci us] bound
  have sel: "distinct selectedLoci" "\<forall>l \<in> set selectedLoci. 1 \<le> l \<and> l \<le> n - 1"
    by (simp_all add: lo n_def)
  have "js_nth childA 0 = Some origin"
    by (rule crossover_one_head [OF a [folded n_def] b [folded n_def] sel origin ca])
  moreover have "js_nth childB 0 = Some origin"
    by (rule crossover_one_head [OF b [folded n_def] a [folded n_def] sel origin(2,1) cb])
  moreover from mate res have "set offspring = {childA, childB}"
    by (auto simp: set_new_Set)
  ultimately show ?thesis by auto
qed

subsection \<open>The operators on the 4-node scenario\<close>


lemma draw_loci_ga4: "draw_loci ga4 [(0, 0), (0, 1 / 2)] = Some (1, 2)"
  by (simp add: random_eval ga4_def configs4_def)

lemma mutate_ga4: "mutate ga4 [0, 1, 2, 3] [(0, 0), (0, 1 / 2)] 0 = Some (Inr [0, 2, 1, 3])"
  unfolding mutate_def Let_def
  apply (simp add: set_eval random_eval ga4_def configs4_def)
  apply (simp add: js_slice_def)
  apply (simp add: js_splice_def)
  apply (simp add: set_eval)
  done


lemma mate_loci_ga4: "mate_loci ga4 (1 / 2) [3 / 4, 1 / 2] = Some [3, 2]"
  unfolding mate_loci_def Let_def
  by (simp add: random_eval ga4_def configs4_def)

lemma mate_ga4:
  "mate ga4 [[0, 1, 2, 3], [0, 3, 1, 2]] (1 / 2) [3 / 4, 1 / 2]
     = Some (Inr [[0, 1, 2, 3], [0, 2, 1, 3]])"
  unfolding mate_def Let_def
  apply (simp add: mate_loci_ga4 set_eval)
  apply (simp add: js_nth_def index_of_gene_def)
  apply (simp add: js_splice_def)
  apply (simp add: set_eval)
  done

lemma nearest_neighbor_ga4:
  "nearest_neighbor ga4 [0, 2] 2 = Inr (Some 1, Some 1)"
  "nearest_neighbor ga4 [0, 2, 1] 1 = Inr (Some 2, Some 3)"
  "nearest_neighbor ga4 [0, 1] 1 = Inr (Some 1, Some 2)"
  "nearest_neighbor ga4 [0, 1, 2] 2 = Inr (Some 1, Some 3)"
  unfolding nearest_neighbor_def getCostTableBoundaries_def Let_def
  by (simp_all add: ga4_def configs4_def table4_def js_nth_def upto_rec1)

lemma ga4_fields: "isOriginFixed ga4" "dimension (configs ga4) = 4"
  "fixedOriginIndex (configs ga4) = Some 0"
  by (simp_all add: ga4_def configs4_def)

lemma nna_extend_ga4:
  "nna_extend ga4 [0, 2] = Inr [0, 2, 1, 3]" "nna_extend ga4 [0, 1] = Inr [0, 1, 2, 3]"
  by (simp_all add: nna_extend.simps [of ga4] ga4_fields js_nth_def nearest_neighbor_ga4
      set_add_def)

lemma nna_chromosome_ga4:
  "nna_chromosome ga4 [0, 1 / 2] = Some (Inr [0, 2, 1, 3])"
  "nna_chromosome ga4 [1 / 4] = Some (Inr [0, 1, 2, 3])"
  unfolding nna_chromosome_def
  by (simp_all add: place_origin_def ga4_fields random_js_def set_add_def nna_extend_ga4)

lemma generateNnaChrs_ga4:
  "generateNnaChrs ga4 2 [[0, 1 / 2], [1 / 4]] = Some (Inr [[0, 2, 1, 3], [0, 1, 2, 3]])"
  by (simp add: generateNnaChrs_def nna_chromosome_ga4 set_add_def chrToStr_def)

lemma random_chromosome_ga4:
  "random_chromosome ga4 [0, 1 / 2, 1 / 2, 1 / 4, 0, 3 / 4] = Some (Inr [0, 2, 1, 3])"
  "random_chromosome ga4 [1 / 4, 1 / 2, 3 / 4] = Some (Inr [0, 1, 2, 3])"
  unfolding random_chromosome_def
  by (simp_all add: place_origin_def ga4_fields random_js_def set_add_def)

lemma generateRandomChrs_ga4:
  "generateRandomChrs ga4 2 [[0, 1 / 2, 1 / 2, 1 / 4, 0, 3 / 4], [1 / 4, 1 / 2, 3 / 4]]
     = Some (Inr [[0, 2, 1, 3], [0, 1, 2, 3]])"
  by (simp add: generateRandomChrs_def random_chromosome_ga4 set_add_def chrToStr_def)

subsection \<open>Variation and seeding: the claims\<close>

lemma is_tour_4: "is_tour 4 [0, 1, 2, 3]" "is_tour 4 [0, 3, 1, 2]"
  by (simp_all add: is_tour_def upto_rec1)

text \<open>
  C6. For every chromosome that is a tour and every draw of the loci and of the
  displacement position for which the locus loop ends, \<open>_mutate\<close> returns a chromosome with
  the same multiset of genes (\<open>sort (mutate c) = sort c\<close>); its check of the gene count,
  which would throw, passes.
\<close>

theorem C6_mutate_preserves_genes:
  assumes "is_tour n chromosome" and "draw_loci g draws = Some loci"
  shows "\<exists>mutated. mutate g chromosome draws u = Some (Inr mutated)
    \<and> sort mutated = sort chromosome \<and> mset mutated = mset chromosome
    \<and> length mutated = length chromosome"
proof -
  from mutate_result [OF assms(2), of chromosome u] obtain mutated where
    m: "mutate g chromosome draws u = Some (Inr mutated)"
      "mset mutated = mset (strToChr chromosome)"
    by blast
  from assms(1) have "strToChr chromosome = chromosome"
    by (simp add: strToChr_def new_Set_id is_tour_distinct)
  with m(2) have eq: "mset mutated = mset chromosome" by simp
  then have "sort mutated = sort chromosome"
    by (intro properties_for_sort) simp_all
  moreover from eq have "length mutated = length chromosome" by (rule mset_eq_length)
  ultimately show ?thesis using m(1) eq by blast
qed

theorem C6_mutate_preserves_genes_witness:
  "is_tour 4 [0, 1, 2, 3] \<and> draw_loci ga4 [(0, 0), (0, 1 / 2)] = Some (1, 2)
   \<and> mutate ga4 [0, 1, 2, 3] [(0, 0), (0, 1 / 2)] 0 = Some (Inr [0, 2, 1, 3])
   \<and> sort [0, 2, 1, 3] = sort [0, 1, 2, 3 :: int]"
proof -
  from C6_mutate_preserves_genes [OF is_tour_4(1) draw_loci_ga4, where u = 0]
  obtain mutated where "mutate ga4 [0, 1, 2, 3] [(0, 0), (0, 1 / 2)] 0 = Some (Inr mutated)"
    "sort mutated = sort [0, 1, 2, 3]"
    by blast
  with mutate_ga4 have "sort [0, 2, 1, 3] = sort [0, 1, 2, 3 :: int]"
    by (simp only: option.inject sum.inject)
  with is_tour_4(1) draw_loci_ga4 mutate_ga4 show ?thesis by blast
qed

text \<open>
  C7. For every pair of different parents that are tours of \<open>N = dimension\<close> nodes and
  every draw for which the selection of loci ends, \<open>_mate\<close> returns offspring that are
  tours of \<open>N\<close> nodes (\<open>sort child = [0, ..., N - 1]\<close>), and locus 0 is not selected when
  the origin is fixed.
\<close>

theorem C7_mate_offspring_are_tours:
  assumes "is_tour n parentA" and "is_tour n parentB" and "parentA \<noteq> parentB"
    and "n = dimension (configs g)"
    and "\<forall>v \<in> set us. unit_draw v"
    and "mate_loci g u us = Some selectedLoci"
  shows "\<exists>offspring. mate g [parentA, parentB] u us = Some (Inr offspring)
    \<and> offspring \<noteq> []
    \<and> (\<forall>child \<in> set offspring. sort child = [0..n - 1])
    \<and> (isOriginFixed g \<longrightarrow> 0 \<notin> set selectedLoci)"
proof -
  from distinct_tours_dimension [OF assms(1-3)] have bound: "first_locus_bound g \<le> n - 1"
    by (simp add: first_locus_bound_def)
  from mate_result [OF assms(1,2,4) bound assms(5,6)] obtain childA childB where
    c: "is_tour n childA" "is_tour n childB"
      "mate g [parentA, parentB] u us = Some (Inr (new_Set [childA, childB]))"
    by blast
  have "set (new_Set [childA, childB]) = {childA, childB}" by (simp add: set_new_Set)
  with c(1,2) have tours: "\<forall>child \<in> set (new_Set [childA, childB]). sort child = [0..n - 1]"
    and ne: "new_Set [childA, childB] \<noteq> []"
    by (auto simp: is_tour_def)
  have "isOriginFixed g \<longrightarrow> 0 \<notin> set selectedLoci"
    using mate_loci_range [OF assms(6,5)] bound assms(4)
    by (auto simp: first_locus_bound_def)
  with c(3) tours ne show ?thesis by blast
qed

theorem C7_mate_offspring_are_tours_witness:
  "is_tour 4 [0, 1, 2, 3] \<and> is_tour 4 [0, 3, 1, 2] \<and> dimension (configs ga4) = 4
   \<and> isOriginFixed ga4
   \<and> unit_draw (3 / 4) \<and> unit_draw (1 / 2)
   \<and> mate_loci ga4 (1 / 2) [3 / 4, 1 / 2] = Some [3, 2]
   \<and> mate ga4 [[0, 1, 2, 3], [0, 3, 1, 2]] (1 / 2) [3 / 4, 1 / 2]
       = Some (Inr [[0, 1, 2, 3], [0, 2, 1, 3]])
   \<and> sort [0, 2, 1, 3] = [0..4 - 1]
   \<and> 0 \<notin> set [3, 2 :: int]"
proof -
  have u: "unit_draw (3 / 4)" "unit_draw (1 / 2)"
    by (simp_all add: unit_draw_def)
  then have units: "\<forall>v \<in> set [3 / 4, 1 / 2 :: real]. unit_draw v"
    by simp
  have "[0, 1, 2, 3] \<noteq> [0, 3, 1, 2 :: int]" by simp
  from C7_mate_offspring_are_tours [OF is_tour_4 this ga4_fields(2) [symmetric] units mate_loci_ga4]
  obtain offspring where
    "mate ga4 [[0, 1, 2, 3], [0, 3, 1, 2]] (1 / 2) [3 / 4, 1 / 2] = Some (Inr offspring)"
    "\<forall>child \<in> set offspring. sort child = [0..4 - 1]"
    "isOriginFixed ga4 \<longrightarrow> 0 \<notin> set [3, 2 :: int]"
    by blast
  with mate_ga4 ga4_fields(1) have "sort [0, 2, 1, 3] = [0..4 - 1]" "0 \<notin> set [3, 2 :: int]"
    by auto
  with is_tour_4 ga4_fields(1,2) u mate_loci_ga4 mate_ga4 show ?thesis by blast
qed

text \<open>
  C5. When \<open>fixedOriginIndex = O\<close> is configured, every chromosome made by nearest-neighbor
  seeding and by random seeding has \<open>O\<close> at position 0; so has the mutant of a chromosome
  with \<open>O\<close> at position 0, and so has the offspring of two different parents that are
  tours with \<open>O\<close> at position 0.
\<close>

theorem C5_fixed_origin_at_position_0:
  assumes "GA table cfg = Inr g" and "fixedOriginIndex cfg = Some origin"
  shows
    "(generateNnaChrs g nnaCount nnaTapes = Some (Inr nnaChrs)
        \<longrightarrow> (\<forall>c \<in> set nnaChrs. js_nth c 0 = Some origin))
     \<and> (generateRandomChrs g randomCount randomTapes = Some (Inr randomChrs)
        \<longrightarrow> (\<forall>c \<in> set randomChrs. js_nth c 0 = Some origin))
     \<and> (1 \<le> dimension cfg \<and> (\<forall>(u1, u2) \<in> set draws. unit_draw u1 \<and> unit_draw u2)
        \<and> unit_draw u \<and> js_nth (strToChr chromosome) 0 = Some origin
        \<and> mutate g chromosome draws u = Some (Inr mutated)
        \<longrightarrow> js_nth mutated 0 = Some origin)
     \<and> (is_tour (dimension cfg) parentA \<and> is_tour (dimension cfg) parentB
        \<and> parentA \<noteq> parentB
        \<and> js_nth parentA 0 = Some origin \<and> js_nth parentB 0 = Some origin
        \<and> (\<forall>v \<in> set us. unit_draw v)
        \<and> mate g [parentA, parentB] u' us = Some (Inr offspring)
        \<longrightarrow> (\<forall>c \<in> set offspring. js_nth c 0 = Some origin))"
proof -
  from GA_fields [OF assms(1)] assms(2)
  have g: "isOriginFixed g" "fixedOriginIndex (configs g) = Some origin" "configs g = cfg"
    by simp_all
  have "generateNnaChrs g nnaCount nnaTapes = Some (Inr nnaChrs)
      \<longrightarrow> (\<forall>c \<in> set nnaChrs. js_nth c 0 = Some origin)"
    using generateNnaChrs_loop_head [OF g(1,2), of nnaCount "[]" nnaTapes nnaChrs]
    by (simp add: generateNnaChrs_def)
  moreover have "generateRandomChrs g randomCount randomTapes = Some (Inr randomChrs)
      \<longrightarrow> (\<forall>c \<in> set randomChrs. js_nth c 0 = Some origin)"
    using generateRandomChrs_loop_head [OF g(1,2), of randomCount "[]" randomTapes randomChrs]
    by (simp add: generateRandomChrs_def)
  moreover have "1 \<le> dimension cfg \<and> (\<forall>(u1, u2) \<in> set draws. unit_draw u1 \<and> unit_draw u2)
      \<and> unit_draw u \<and> js_nth (strToChr chromosome) 0 = Some origin
      \<and> mutate g chromosome draws u = Some (Inr mutated)
      \<longrightarrow> js_nth mutated 0 = Some origin"
    using mutate_keeps_origin [OF g(1), of draws u chromosome origin mutated]
    by (simp add: g(3))
  moreover have "is_tour (dimension cfg) parentA \<and> is_tour (dimension cfg) parentB
      \<and> parentA \<noteq> parentB
      \<and> js_nth parentA 0 = Some origin \<and> js_nth parentB 0 = Some origin
      \<and> (\<forall>v \<in> set us. unit_draw v)
      \<and> mate g [parentA, parentB] u' us = Some (Inr offspring)
      \<longrightarrow> (\<forall>c \<in> set offspring. js_nth c 0 = Some origin)"
    using mate_keeps_origin [OF g(1), of parentA parentB origin us u' offspring]
    by (simp add: g(3))
  ultimately show ?thesis by blast
qed

theorem C5_fixed_origin_at_position_0_witness:
  "GA table4 configs4 = Inr ga4 \<and> fixedOriginIndex configs4 = Some 0
   \<and> generateNnaChrs ga4 2 [[0, 1 / 2], [1 / 4]] = Some (Inr [[0, 2, 1, 3], [0, 1, 2, 3]])
   \<and> generateRandomChrs ga4 2 [[0, 1 / 2, 1 / 2, 1 / 4, 0, 3 / 4], [1 / 4, 1 / 2, 3 / 4]]
       = Some (Inr [[0, 2, 1, 3], [0, 1, 2, 3]])
   \<and> js_nth [0, 2, 1, 3 :: int] 0 = Some 0 \<and> js_nth [0, 1, 2, 3 :: int] 0 = Some 0
   \<and> 1 \<le> dimension configs4 \<and> unit_draw 0 \<and> unit_draw (1 / 2) \<and> unit_draw (3 / 4)
   \<and> js_nth (strToChr [0, 1, 2, 3]) 0 = Some 0
   \<and> mutate ga4 [0, 1, 2, 3] [(0, 0), (0, 1 / 2)] 0 = Some (Inr [0, 2, 1, 3])
   \<and> is_tour (dimension configs4) [0, 1, 2, 3] \<and> is_tour (dimension configs4) [0, 3, 1, 2]
   \<and> js_nth [0, 3, 1, 2 :: int] 0 = Some 0
   \<and> mate ga4 [[0, 1, 2, 3], [0, 3, 1, 2]] (1 / 2) [3 / 4, 1 / 2]
       = Some (Inr [[0, 1, 2, 3], [0, 2, 1, 3]])"
proof -
  have o: "fixedOriginIndex configs4 = Some 0" and d: "dimension configs4 = 4"
    by (simp_all add: configs4_def)
  have units: "unit_draw 0" "unit_draw (1 / 2)" "unit_draw (3 / 4)"
    by (simp_all add: unit_draw_def)
  then have draws: "\<forall>(u1, u2) \<in> set [(0, 0), (0, 1 / 2 :: real)]. unit_draw u1 \<and> unit_draw u2"
    "\<forall>v \<in> set [3 / 4, 1 / 2 :: real]. unit_draw v"
    by simp_all
  have heads: "js_nth [0, 3, 1, 2 :: int] 0 = Some 0" "js_nth (strToChr [0, 1, 2, 3]) 0 = Some 0"
    by (simp_all add: js_nth_def set_eval)
  have tours: "is_tour (dimension configs4) [0, 1, 2, 3]" "is_tour (dimension configs4) [0, 3, 1, 2]"
    by (simp_all only: d is_tour_4)
  have ne: "[0, 1, 2, 3] \<noteq> [0, 3, 1, 2 :: int]" by simp
  have dim: "1 \<le> dimension configs4" by (simp add: d)
  note c5 = C5_fixed_origin_at_position_0 [OF GA_configs4 o]
  from c5 [THEN conjunct1, of 2 "[[0, 1 / 2], [1 / 4]]"] generateNnaChrs_ga4
  have nna: "js_nth [0, 2, 1, 3 :: int] 0 = Some 0" "js_nth [0, 1, 2, 3 :: int] 0 = Some 0"
    by auto
  from c5 [THEN conjunct2, THEN conjunct2, THEN conjunct1, of "[(0, 0), (0, 1 / 2)]" 0
      "[0, 1, 2, 3]" "[0, 2, 1, 3]"] dim draws(1) units(1) heads(2) mutate_ga4
  have "js_nth [0, 2, 1, 3 :: int] 0 = Some 0" by blast
  from c5 [THEN conjunct2, THEN conjunct2, THEN conjunct2, of "[0, 1, 2, 3]" "[0, 3, 1, 2]"
      "[3 / 4, 1 / 2]" "1 / 2" "[[0, 1, 2, 3], [0, 2, 1, 3]]"] tours ne nna(2) heads(1) draws(2)
    mate_ga4
  have "\<forall>c \<in> set [[0, 1, 2, 3], [0, 2, 1, 3 :: int]]. js_nth c 0 = Some 0" by blast
  from GA_configs4 o generateNnaChrs_ga4 generateRandomChrs_ga4 nna dim units heads mutate_ga4
    tours mate_ga4
  show ?thesis by blast
qed

subsection \<open>Nearest-neighbour seeding on a zero cost\<close>

lemma GA_configsZ: "GA tableZ configsZ = Inr gaZ"
  by (simp add: GA_def configsZ_def gaZ_def MAX_CHROMOSOME_AGE_def fact_js.simps)

lemma gaZ_fields: "isOriginFixed gaZ = False" "dimension (configs gaZ) = 3"
  "costTable gaZ = tableZ"
  by (simp_all add: gaZ_def configsZ_def)

lemma getRouteCost_gaZ: "getRouteCost gaZ 0 1 = Inr 0" "getRouteCost gaZ 0 2 = Inr 5"
  by (simp_all add: getRouteCost_def gaZ_fields tableZ_def js_nth_def)

lemma nearest_neighbor_gaZ:
  "nearest_neighbor gaZ [0] 0 = Inr (Some 5, Some 2)"
  "nearest_neighbor gaZ [0, 2] 2 = Inr (Some 5, Some 1)"
  unfolding nearest_neighbor_def getCostTableBoundaries_def Let_def
  by (simp_all add: gaZ_fields tableZ_def js_nth_def upto_rec1)

lemma nna_extend_gaZ: "nna_extend gaZ [0] = Inr [0, 2, 1]"
  by (simp add: nna_extend.simps [of gaZ] gaZ_fields js_nth_def nearest_neighbor_gaZ set_add_def)

lemma nna_chromosome_gaZ: "nna_chromosome gaZ [0] = Some (Inr [0, 2, 1])"
  unfolding nna_chromosome_def
  by (simp add: place_origin_def gaZ_fields random_js_def set_add_def nna_extend_gaZ)

lemma tableZ_costs: "list_all (\<lambda>(originIndex, destIndex, c). 0 \<le> c) tableZ"
  by (simp add: tableZ_def)

text \<open>
  C8. The claim: at every extension step the node that \<open>_generateNnaChrs\<close> appends is an
  unvisited node whose cost from the tail is minimal among the unvisited nodes, for every
  table of non-negative costs. On the code \<open>!nearestNeighborCost\<close> holds again once the
  nearest cost found so far is 0, so the next unvisited node of the row replaces a
  neighbour at cost 0. In \<open>tableZ\<close>, from the tail 0 with only node 0 visited, node 1 is
  unvisited at cost 0 and the scan returns node 2 at cost 5; the chromosome built from the
  start 0 is \<open>[0, 2, 1]\<close>.
\<close>

theorem C8_nearest_neighbor_skips_zero_cost:
  "GA tableZ configsZ = Inr gaZ
   \<and> list_all (\<lambda>(originIndex, destIndex, c). 0 \<le> c) tableZ
   \<and> getRouteCost gaZ 0 1 = Inr 0 \<and> getRouteCost gaZ 0 2 = Inr 5
   \<and> nearest_neighbor gaZ [0] 0 = Inr (Some 5, Some 2)
   \<and> nna_chromosome gaZ [0] = Some (Inr [0, 2, 1])"
  by (simp add: GA_configsZ tableZ_costs getRouteCost_gaZ nearest_neighbor_gaZ
      nna_chromosome_gaZ)

subsection \<open>The cost table of the routing client\<close>

lemma requests_coords3:
  "requests coords3 =
     [((0, ''35,51''), (1, ''36,52'')), ((0, ''35,51''), (2, ''37,53'')),
      ((1, ''36,52''), (0, ''35,51'')), ((1, ''36,52''), (2, ''37,53'')),
      ((2, ''37,53''), (0, ''35,51'')), ((2, ''37,53''), (1, ''36,52''))]"
  by (simp add: requests_def loop_pairs_def coords3_def enumerate_eq_zip upt_rec)

lemma mset_settled3: "mset settled3 = mset (requests coords3)"
  by (simp add: requests_coords3 settled3_def)

lemma settle_succeeds:
  "(\<And>i a j b. ((i, a), (j, b)) \<in> set settled \<Longrightarrow>
      \<exists>route. costFetcher (a, b) = Inr route \<and> costDuration route = c a b) \<Longrightarrow>
   settle costFetcher settled table
     = Inr (table @ map (\<lambda>((i, a), (j, b)). (int i, int j, c a b)) settled)"
proof (induction settled arbitrary: table)
  case Nil
  then show ?case by simp
next
  case (Cons r settled)
  obtain i a j b where r: "r = ((i, a), (j, b))" by (cases r) auto
  from Cons.prems [of i a j b] obtain route
    where route: "costFetcher (a, b) = Inr route" "costDuration route = c a b"
    by (auto simp: r)
  have rest: "\<exists>route. costFetcher (a', b') = Inr route \<and> costDuration route = c a' b'"
    if "((i', a'), (j', b')) \<in> set settled" for i' a' j' b'
    using Cons.prems [of i' a' j' b'] that by simp
  have "settle costFetcher settled (table @ [(int i, int j, c a b)])
      = Inr ((table @ [(int i, int j, c a b)])
          @ map (\<lambda>((i, a), (j, b)). (int i, int j, c a b)) settled)"
    by (rule Cons.IH) (erule rest)
  then show ?case by (simp add: r route)
qed

lemma loop_pairs_set:
  "((i, a), (j, b)) \<in> set (loop_pairs coords)
     \<longleftrightarrow> i < length coords \<and> j < length coords \<and> a = coords ! i \<and> b = coords ! j"
  by (auto simp: loop_pairs_def in_set_enumerate_eq)

lemma length_loop_pairs: "length (loop_pairs coords) = length coords * length coords"
  by (simp add: loop_pairs_def)

lemma loop_pairs_nth:
  assumes "n < length coords * length coords"
  shows "loop_pairs coords ! n
    = ((n div length coords, coords ! (n div length coords)),
       (n mod length coords, coords ! (n mod length coords)))"
proof -
  from assms have pos: "0 < length coords" by (cases "length coords") auto
  from assms have d: "n div length coords < length coords"
    by (simp add: less_mult_imp_div_less)
  from pos have m: "n mod length coords < length coords" by simp
  show ?thesis
    using assms d m by (simp add: loop_pairs_def product_nth nth_enumerate_eq)
qed

lemma index_div_mod:
  fixes i j N :: nat
  assumes "i < N" "j < N"
  shows "i * N + j < N * N \<and> (i * N + j) div N = i \<and> (i * N + j) mod N = j"
proof -
  from assms have "Suc i \<le> N" by simp
  then have "Suc i * N \<le> N * N" by (rule mult_le_mono1)
  with assms have "i * N + j < N * N" by simp
  with assms show ?thesis by simp
qed

lemma filter_key_unique:
  "distinct (map f xs) \<Longrightarrow> k \<in> set xs \<Longrightarrow> filter (\<lambda>x. f k = f x) xs = [k]"
proof (induction xs)
  case Nil
  then show ?case by simp
next
  case (Cons x xs)
  show ?case
  proof (cases "k = x")
    case True
    from Cons.prems have "\<forall>y \<in> set xs. f x \<noteq> f y" by auto
    then have "filter (\<lambda>y. f x = f y) xs = []" by (simp add: filter_empty_conv)
    with True show ?thesis by simp
  next
    case False
    with Cons.prems have k: "k \<in> set xs" by simp
    then have "f k \<in> f ` set xs" by (rule imageI)
    with Cons.prems have "f k \<noteq> f x" by auto
    moreover from Cons.prems k have "filter (\<lambda>x. f k = f x) xs = [k]"
      by (intro Cons.IH) simp_all
    ultimately show ?thesis by simp
  qed
qed

lemma div_mod_le:
  fixes a b N :: nat
  assumes "a \<le> b"
  shows "a div N < b div N \<or> a div N \<le> b div N \<and> a mod N \<le> b mod N"
proof (cases "a div N = b div N")
  case True
  from assms have "N * (a div N) + a mod N \<le> N * (b div N) + b mod N" by simp
  then have "a mod N \<le> b mod N"
    unfolding True by (simp only: add_le_cancel_left)
  with True show ?thesis by simp
next
  case False
  with div_le_mono [OF assms, of N] show ?thesis by simp
qed

lemma div_mod_inj:
  fixes a b N :: nat
  assumes "a div N = b div N" "a mod N = b mod N"
  shows "a = b"
proof -
  have "a = N * (a div N) + a mod N" by simp
  also have "\<dots> = N * (b div N) + b mod N" by (simp only: assms)
  also have "\<dots> = b" by simp
  finally show ?thesis .
qed

lemma sorted_table_of_fetches:
  fixes c :: "coordinate \<Rightarrow> coordinate \<Rightarrow> real"
  assumes "mset settled = mset (requests coords)"
  shows "sort_table (diagonal_entries coords
           @ map (\<lambda>((i, a), (j, b)). (int i, int j, c a b)) settled)
         = map (\<lambda>((i, a), (j, b)). (int i, int j, if i = j then 0 else c a b))
             (loop_pairs coords)"
proof -
  let ?N = "length coords"
  let ?lp = "loop_pairs coords"
  let ?key = "\<lambda>(originIndex :: int, destIndex :: int, c :: real). (originIndex, destIndex)"
  let ?entry = "\<lambda>((i :: nat, a), (j :: nat, b)). (int i, int j, if i = j then 0 else c a b)"
  let ?fetched = "\<lambda>((i :: nat, a), (j :: nat, b)). (int i, int j, c a b)"
  let ?eq = "\<lambda>((i :: nat, a :: coordinate), (j :: nat, b :: coordinate)). i = j"
  let ?neq = "\<lambda>((i :: nat, a :: coordinate), (j :: nat, b :: coordinate)). i \<noteq> j"
  let ?T = "diagonal_entries coords @ map ?fetched settled"
  let ?E = "map ?entry ?lp"
  have diag: "diagonal_entries coords = map ?entry (filter ?eq ?lp)"
    unfolding diagonal_entries_def by (rule map_cong) auto
  have "mset (map ?fetched settled) = image_mset ?fetched (filter_mset ?neq (mset ?lp))"
    by (simp add: assms requests_def)
  also have "\<dots> = image_mset ?entry (filter_mset ?neq (mset ?lp))"
    by (rule image_mset_cong) auto
  finally have fetched: "mset (map ?fetched settled)
      = image_mset ?entry (filter_mset ?neq (mset ?lp))" .
  have neq: "?neq = (\<lambda>r. \<not> ?eq r)" by (auto simp: fun_eq_iff)
  have "mset ?T = image_mset ?entry (filter_mset ?eq (mset ?lp))
      + image_mset ?entry (filter_mset (\<lambda>r. \<not> ?eq r) (mset ?lp))"
    using fetched by (simp add: diag neq)
  also have "\<dots> = image_mset ?entry (mset ?lp)"
    by (simp only: image_mset_union [symmetric] multiset_partition [symmetric])
  finally have mset: "mset ?E = mset ?T" by simp
  have key_nth: "map ?key ?E ! n = (int (n div ?N), int (n mod ?N))" if "n < ?N * ?N" for n
    using that by (simp add: length_loop_pairs loop_pairs_nth)
  have len: "length (map ?key ?E) = ?N * ?N" by (simp add: length_loop_pairs)
  have sorted: "sorted (map ?key ?E)"
    unfolding sorted_iff_nth_mono
  proof (intro allI impI)
    fix a b
    assume ab: "a \<le> b" "b < length (map ?key ?E)"
    then have "a < ?N * ?N" "b < ?N * ?N" by (simp_all only: len)
    with div_mod_le [OF ab(1), of ?N] show "map ?key ?E ! a \<le> map ?key ?E ! b"
      by (simp only: key_nth less_eq_prod_simp) simp
  qed
  have distinct_E: "distinct (map ?key ?E)"
    unfolding distinct_conv_nth
  proof (intro allI impI)
    fix a b
    assume ab: "a < length (map ?key ?E)" "b < length (map ?key ?E)" "a \<noteq> b"
    then have "a < ?N * ?N" "b < ?N * ?N" by (simp_all only: len)
    with ab(3) div_mod_inj [of a ?N b] show "map ?key ?E ! a \<noteq> map ?key ?E ! b"
      by (simp only: key_nth) auto
  qed
  from mset have "mset (map ?key ?E) = mset (map ?key ?T)"
    by (simp only: mset_map)
  from mset_eq_imp_distinct_iff [OF this] distinct_E have distinct_T: "distinct (map ?key ?T)"
    by simp
  have "sort_key ?key ?T = ?E"
  proof (rule properties_for_sort_key [OF mset _ sorted])
    fix k
    assume k: "k \<in> set ?E"
    with mset have "k \<in> set ?T" using mset_eq_setD by blast
    with distinct_T have "filter (\<lambda>x. ?key k = ?key x) ?T = [k]" by (rule filter_key_unique)
    moreover from distinct_E k have "filter (\<lambda>x. ?key k = ?key x) ?E = [k]"
      by (rule filter_key_unique)
    ultimately show "filter (\<lambda>x. ?key k = ?key x) ?E = filter (\<lambda>x. ?key k = ?key x) ?T"
      by simp
  qed
  then show ?thesis by (simp only: sort_table_def)
qed

lemma getNeshanRoute_succeeds:
  assumes "isLatLong org" "isLatLong dest"
    and "http (route_url vehicle org dest) apiKey
      = Inr \<lparr> status = s, json = Inr (((d, t) # rest) # legs) \<rparr>"
    and "200 \<le> s" "s \<le> 299"
  shows "\<exists>route. getNeshanRoute isLatLong http apiKey (org, dest) vehicle = Inr route
    \<and> costDuration route = t"
  using assms by (simp add: getNeshanRoute_def response_ok_def js_nth_def)

text \<open>
  C9. For a list of coordinates that \<open>isLatLong\<close> accepts and a key that is not empty,
  when the provider answers the request of every pair of two positions with a status in
  200 to 299 and a first route whose first leg has the duration \<open>reported\<close> of the two
  coordinates, \<open>calculateCostTable\<close> returns a table, in whatever order the requests
  settle. The table has as many entries as the square of the number of coordinates; the
  entry of the positions \<open>i\<close> and \<open>j\<close> is at index \<open>i * N + j\<close>, with the cost 0 when
  \<open>i = j\<close> and the reported duration from coordinate \<open>i\<close> to coordinate \<open>j\<close> otherwise; and
  the entries are sorted lexicographically by origin and destination.
\<close>

theorem C9_cost_table_of_successful_fetches:
  assumes valid: "\<forall>c \<in> set coords. isLatLong c"
    and key: "apiKey \<noteq> []"
    and name: "name = None \<or> name = Some NESHAN"
    and order: "mset settled = mset (requests coords)"
    and fetch: "\<forall>i < length coords. \<forall>j < length coords. i \<noteq> j \<longrightarrow>
      (\<exists>s d rest legs. http (route_url vehicle (coords ! i) (coords ! j)) apiKey
          = Inr \<lparr> status = s,
                  json = Inr (((d, reported (coords ! i) (coords ! j)) # rest) # legs) \<rparr>
        \<and> 200 \<le> s \<and> s \<le> 299)"
  shows "\<exists>table.
    calculateCostTable isLatLong http settled coords (Some apiKey, name) vehicle = Inr table
    \<and> length table = length coords * length coords
    \<and> (\<forall>i < length coords. \<forall>j < length coords.
         table ! (i * length coords + j)
           = (int i, int j, if i = j then 0 else reported (coords ! i) (coords ! j)))
    \<and> sorted (map (\<lambda>(originIndex, destIndex, c). (originIndex, destIndex)) table)"
proof -
  let ?N = "length coords"
  let ?E = "map (\<lambda>((i, a), (j, b)). (int i, int j, if i = j then 0 else reported a b))
    (loop_pairs coords)"
  let ?fetcher = "\<lambda>pair. getNeshanRoute isLatLong http apiKey pair vehicle"
  have "settle ?fetcher settled (diagonal_entries coords)
      = Inr (diagonal_entries coords
          @ map (\<lambda>((i, a), (j, b)). (int i, int j, reported a b)) settled)"
  proof (rule settle_succeeds)
    fix i a j b
    assume "((i, a), (j, b)) \<in> set settled"
    with order have "((i, a), (j, b)) \<in> set (requests coords)"
      using mset_eq_setD by blast
    then have ij: "i < ?N" "j < ?N" "a = coords ! i" "b = coords ! j" "i \<noteq> j"
      by (simp_all add: requests_def loop_pairs_set)
    with fetch obtain s d rest legs
      where "http (route_url vehicle a b) apiKey
          = Inr \<lparr> status = s, json = Inr (((d, reported a b) # rest) # legs) \<rparr>"
        and "200 \<le> s" "s \<le> 299"
      by blast
    moreover from valid ij have "isLatLong a" "isLatLong b" by simp_all
    ultimately show "\<exists>route. ?fetcher (a, b) = Inr route \<and> costDuration route = reported a b"
      by (intro getNeshanRoute_succeeds)
  qed
  moreover from name have "(case name of None \<Rightarrow> NESHAN | Some apiName \<Rightarrow> apiName) = NESHAN"
    by auto
  ultimately have "calculateCostTable isLatLong http settled coords (Some apiKey, name) vehicle
      = Inr (sort_table (diagonal_entries coords
          @ map (\<lambda>((i, a), (j, b)). (int i, int j, reported a b)) settled))"
    using key by (simp add: calculateCostTable_def)
  also have "\<dots> = Inr ?E"
    by (simp only: sorted_table_of_fetches [OF order])
  finally have result:
    "calculateCostTable isLatLong http settled coords (Some apiKey, name) vehicle = Inr ?E" .
  have len: "length ?E = ?N * ?N" by (simp add: length_loop_pairs)
  have nth: "?E ! (i * ?N + j)
      = (int i, int j, if i = j then 0 else reported (coords ! i) (coords ! j))"
    if "i < ?N" "j < ?N" for i j
    using index_div_mod [OF that] by (simp add: length_loop_pairs loop_pairs_nth)
  have "sorted (map (\<lambda>(originIndex, destIndex, c). (originIndex, destIndex))
      (sort_table (diagonal_entries coords
          @ map (\<lambda>((i, a), (j, b)). (int i, int j, reported a b)) settled)))"
    unfolding sort_table_def by (rule sorted_sort_key)
  then have sorted: "sorted (map (\<lambda>(originIndex, destIndex, c). (originIndex, destIndex)) ?E)"
    by (simp only: sorted_table_of_fetches [OF order])
  show ?thesis
  proof (rule exI [of _ ?E], intro conjI allI impI)
    show "calculateCostTable isLatLong http settled coords (Some apiKey, name) vehicle = Inr ?E"
      by (rule result)
    show "length ?E = ?N * ?N" by (rule len)
    show "?E ! (i * ?N + j)
        = (int i, int j, if i = j then 0 else reported (coords ! i) (coords ! j))"
      if "i < ?N" "j < ?N" for i j
      using that by (rule nth)
    show "sorted (map (\<lambda>(originIndex, destIndex, c). (originIndex, destIndex)) ?E)"
      by (rule sorted)
  qed
qed

lemma http3_answers:
  "http3 (route_url MOTORCYCLE ''35,51'' ''36,52'') ''key''
     = Inr \<lparr> status = 200, json = Inr [[(1000, 10)]] \<rparr>"
  "http3 (route_url MOTORCYCLE ''35,51'' ''37,53'') ''key''
     = Inr \<lparr> status = 200, json = Inr [[(1000, 20)]] \<rparr>"
  "http3 (route_url MOTORCYCLE ''36,52'' ''35,51'') ''key''
     = Inr \<lparr> status = 200, json = Inr [[(1000, 12)]] \<rparr>"
  "http3 (route_url MOTORCYCLE ''36,52'' ''37,53'') ''key''
     = Inr \<lparr> status = 200, json = Inr [[(1000, 15)]] \<rparr>"
  "http3 (route_url MOTORCYCLE ''37,53'' ''35,51'') ''key''
     = Inr \<lparr> status = 200, json = Inr [[(1000, 25)]] \<rparr>"
  "http3 (route_url MOTORCYCLE ''37,53'' ''36,52'') ''key''
     = Inr \<lparr> status = 200, json = Inr [[(1000, 18)]] \<rparr>"
  by (simp_all add: http3_def durations3_def route_url_def)

lemma reported3_values:
  "reported3 ''35,51'' ''36,52'' = 10" "reported3 ''35,51'' ''37,53'' = 20"
  "reported3 ''36,52'' ''35,51'' = 12" "reported3 ''36,52'' ''37,53'' = 15"
  "reported3 ''37,53'' ''35,51'' = 25" "reported3 ''37,53'' ''36,52'' = 18"
  by (simp_all add: reported3_def durations3_def route_url_def)

lemma less_3_cases: "i < (3 :: nat) \<longleftrightarrow> i = 0 \<or> i = 1 \<or> i = 2"
  by arith

lemma length_coords3: "length coords3 = 3"
  by (simp add: coords3_def)

lemma nth_coords3:
  "coords3 ! 0 = ''35,51''" "coords3 ! 1 = ''36,52''" "coords3 ! Suc 0 = ''36,52''"
  "coords3 ! 2 = ''37,53''"
  by (simp_all add: coords3_def)

lemma http3_fetches:
  "\<forall>i < length coords3. \<forall>j < length coords3. i \<noteq> j \<longrightarrow>
     (\<exists>s d rest legs. http3 (route_url MOTORCYCLE (coords3 ! i) (coords3 ! j)) ''key''
         = Inr \<lparr> status = s,
                 json = Inr (((d, reported3 (coords3 ! i) (coords3 ! j)) # rest) # legs) \<rparr>
       \<and> 200 \<le> s \<and> s \<le> 299)"
  unfolding length_coords3 less_3_cases
  by (intro allI impI; elim disjE; hypsubst; simp add: nth_coords3 http3_answers reported3_values)

theorem C9_cost_table_of_successful_fetches_witness:
  "isLatLong3 ''35,51'' \<and> isLatLong3 ''36,52'' \<and> isLatLong3 ''37,53''
   \<and> mset settled3 = mset (requests coords3)
   \<and> http3 (route_url MOTORCYCLE ''35,51'' ''36,52'') ''key''
       = Inr \<lparr> status = 200, json = Inr [[(1000, 10)]] \<rparr>
   \<and> http3 (route_url MOTORCYCLE ''35,51'' ''37,53'') ''key''
       = Inr \<lparr> status = 200, json = Inr [[(1000, 20)]] \<rparr>
   \<and> http3 (route_url MOTORCYCLE ''36,52'' ''35,51'') ''key''
       = Inr \<lparr> status = 200, json = Inr [[(1000, 12)]] \<rparr>
   \<and> http3 (route_url MOTORCYCLE ''36,52'' ''37,53'') ''key''
       = Inr \<lparr> status = 200, json = Inr [[(1000, 15)]] \<rparr>
   \<and> http3 (route_url MOTORCYCLE ''37,53'' ''35,51'') ''key''
       = Inr \<lparr> status = 200, json = Inr [[(1000, 25)]] \<rparr>
   \<and> http3 (route_url MOTORCYCLE ''37,53'' ''36,52'') ''key''
       = Inr \<lparr> status = 200, json = Inr [[(1000, 18)]] \<rparr>
   \<and> calculateCostTable isLatLong3 http3 settled3 coords3 (Some ''key'', None) MOTORCYCLE
       = Inr table3
   \<and> length table3 = 3 * 3
   \<and> sorted (map (\<lambda>(originIndex, destIndex, c). (originIndex, destIndex)) table3)"
proof -
  have valid: "\<forall>c \<in> set coords3. isLatLong3 c"
    by (simp add: isLatLong3_def)
  have v: "isLatLong3 ''35,51''" "isLatLong3 ''36,52''" "isLatLong3 ''37,53''"
    by (simp_all add: isLatLong3_def coords3_def)
  have key: "''key'' \<noteq> []" by simp
  from C9_cost_table_of_successful_fetches [of coords3 isLatLong3 "''key''" None settled3 http3
      MOTORCYCLE reported3, OF valid key _ mset_settled3 http3_fetches]
  obtain table
    where result: "calculateCostTable isLatLong3 http3 settled3 coords3 (Some ''key'', None)
        MOTORCYCLE = Inr table"
      and len: "length table = length coords3 * length coords3"
      and nth: "\<forall>i < length coords3. \<forall>j < length coords3.
        table ! (i * length coords3 + j)
          = (int i, int j, if i = j then 0 else reported3 (coords3 ! i) (coords3 ! j))"
      and sorted: "sorted (map (\<lambda>(originIndex, destIndex, c). (originIndex, destIndex)) table)"
    by blast
  have entries:
    "table ! 0 = (0, 0, 0)" "table ! 1 = (0, 1, 10)" "table ! 2 = (0, 2, 20)"
    "table ! 3 = (1, 0, 12)" "table ! 4 = (1, 1, 0)" "table ! 5 = (1, 2, 15)"
    "table ! 6 = (2, 0, 25)" "table ! 7 = (2, 1, 18)" "table ! 8 = (2, 2, 0)"
    using nth [rule_format, of 0 0] nth [rule_format, of 0 1] nth [rule_format, of 0 2]
      nth [rule_format, of 1 0] nth [rule_format, of 1 1] nth [rule_format, of 1 2]
      nth [rule_format, of 2 0] nth [rule_format, of 2 1] nth [rule_format, of 2 2]
    by (simp_all add: coords3_def reported3_values eval_nat_numeral)
  from len have l9: "length table = 9" by (simp add: length_coords3)
  have "table = map ((!) table) [0..<9]"
    by (subst l9 [symmetric]) (rule map_nth [symmetric])
  also have "\<dots> = table3"
    using entries by (simp add: upt_rec table3_def eval_nat_numeral)
  finally have "table = table3" .
  with result sorted have
    "calculateCostTable isLatLong3 http3 settled3 coords3 (Some ''key'', None) MOTORCYCLE
       = Inr table3"
    "sorted (map (\<lambda>(originIndex, destIndex, c). (originIndex, destIndex)) table3)"
    by simp_all
  moreover have "length table3 = 3 * 3" by (simp add: table3_def)
  ultimately show ?thesis using v mset_settled3 http3_answers by blast
qed

subsection \<open>The failures of the routing client\<close>

lemma settle_fails:
  "((originIndex, org), (destIndex, dest)) \<in> set settled \<Longrightarrow> costFetcher (org, dest) = Inl e \<Longrightarrow>
   \<exists>e'. settle costFetcher settled table = Inl e'"
proof (induction settled arbitrary: table)
  case Nil
  then show ?case by simp
next
  case (Cons r settled)
  obtain i a j b where r: "r = ((i, a), (j, b))" by (cases r) auto
  show ?case
  proof (cases "costFetcher (a, b)")
    case (Inl err)
    then show ?thesis by (simp add: r)
  next
    case (Inr route)
    with Cons.prems have "((originIndex, org), (destIndex, dest)) \<in> set settled"
      by (auto simp: r)
    from Cons.IH [OF this Cons.prems(2)] Inr show ?thesis by (simp add: r)
  qed
qed

lemma getNeshanRoute_invalid:
  "\<not> isLatLong org \<or> \<not> isLatLong dest \<Longrightarrow>
   getNeshanRoute isLatLong http apiKey (org, dest) vehicle
     = Inl (AppError BAD_REQUEST ORG_DEST_VALID_ERR)"
  by (auto simp: getNeshanRoute_def)

lemma getNeshanRoute_not_ok:
  "isLatLong org \<Longrightarrow> isLatLong dest \<Longrightarrow> http (route_url vehicle org dest) apiKey = Inr resp \<Longrightarrow>
   \<not> response_ok resp \<Longrightarrow>
   getNeshanRoute isLatLong http apiKey (org, dest) vehicle
     = Inl (AppError INTERNAL_SERVER_ERROR NESHAN_API_FAILED)"
  by (simp add: getNeshanRoute_def)

lemma calculateCostTable_no_key:
  "key = None \<or> key = Some [] \<Longrightarrow>
   calculateCostTable isLatLong http settled coords (key, name) vehicle
     = Inl (PlainError NESHAN_API_KEY_NOT_FOUND)"
  by (auto simp: calculateCostTable_def)

lemma calculateCostTable_fails:
  assumes "((originIndex, org), (destIndex, dest)) \<in> set settled"
    and "getNeshanRoute isLatLong http apiKey (org, dest) vehicle = Inl e"
  shows "\<exists>e'. calculateCostTable isLatLong http settled coords (Some apiKey, name) vehicle = Inl e'"
proof -
  from settle_fails [OF assms(1), of "\<lambda>pair. getNeshanRoute isLatLong http apiKey pair vehicle" e
      "diagonal_entries coords"] assms(2)
  obtain e' where "settle (\<lambda>pair. getNeshanRoute isLatLong http apiKey pair vehicle) settled
      (diagonal_entries coords) = Inl e'" by auto
  then show ?thesis by (simp add: calculateCostTable_def)
qed

text \<open>
  C10. \<open>calculateCostTable\<close> fails, with no table, whenever one of its off-diagonal
  fetches fails, in whatever order the requests settle, and it fails with the
  API-key-missing error, before any request, when the key is undefined or empty.
  \<open>getNeshanRoute\<close> fails with the invalid origin-or-destination error when one of the two
  strings is not accepted by \<open>isLatLong\<close>, and with the fetching-failed error when the
  status of the response is outside 200 to 299.
\<close>

theorem C10_routing_failures:
  "(mset settled = mset (requests coords)
      \<and> ((originIndex, org), (destIndex, dest)) \<in> set (requests coords)
      \<and> getNeshanRoute isLatLong http apiKey (org, dest) vehicle = Inl e
      \<longrightarrow> (\<exists>e'. calculateCostTable isLatLong http settled coords (Some apiKey, name) vehicle
            = Inl e'))
   \<and> (key = None \<or> key = Some []
      \<longrightarrow> calculateCostTable isLatLong http settled coords (key, name) vehicle
            = Inl (PlainError NESHAN_API_KEY_NOT_FOUND))
   \<and> (\<not> isLatLong org \<or> \<not> isLatLong dest
      \<longrightarrow> getNeshanRoute isLatLong http apiKey (org, dest) vehicle
            = Inl (AppError BAD_REQUEST ORG_DEST_VALID_ERR))
   \<and> (isLatLong org \<and> isLatLong dest
      \<and> http (route_url vehicle org dest) apiKey = Inr resp
      \<and> \<not> response_ok resp
      \<longrightarrow> getNeshanRoute isLatLong http apiKey (org, dest) vehicle
            = Inl (AppError INTERNAL_SERVER_ERROR NESHAN_API_FAILED))"
proof (intro conjI impI)
  assume a: "mset settled = mset (requests coords)
      \<and> ((originIndex, org), (destIndex, dest)) \<in> set (requests coords)
      \<and> getNeshanRoute isLatLong http apiKey (org, dest) vehicle = Inl e"
  then have "((originIndex, org), (destIndex, dest)) \<in> set settled"
    using mset_eq_setD [of settled "requests coords"] by simp
  moreover from a have "getNeshanRoute isLatLong http apiKey (org, dest) vehicle = Inl e"
    by simp
  ultimately show "\<exists>e'. calculateCostTable isLatLong http settled coords (Some apiKey, name)
      vehicle = Inl e'"
    by (rule calculateCostTable_fails)
next
  assume "key = None \<or> key = Some []"
  then show "calculateCostTable isLatLong http settled coords (key, name) vehicle
      = Inl (PlainError NESHAN_API_KEY_NOT_FOUND)"
    by (rule calculateCostTable_no_key)
next
  assume "\<not> isLatLong org \<or> \<not> isLatLong dest"
  then show "getNeshanRoute isLatLong http apiKey (org, dest) vehicle
      = Inl (AppError BAD_REQUEST ORG_DEST_VALID_ERR)"
    by (rule getNeshanRoute_invalid)
next
  assume "isLatLong org \<and> isLatLong dest
      \<and> http (route_url vehicle org dest) apiKey = Inr resp
      \<and> \<not> response_ok resp"
  then show "getNeshanRoute isLatLong http apiKey (org, dest) vehicle
      = Inl (AppError INTERNAL_SERVER_ERROR NESHAN_API_FAILED)"
    by (intro getNeshanRoute_not_ok) blast+
qed

lemma http3_down_failure:
  "http3_down (route_url MOTORCYCLE ''35,51'' ''37,53'') ''key''
     = Inr \<lparr> status = 500, json = Inl TypeError \<rparr>"
  by (simp add: http3_down_def)

lemma getNeshanRoute_down:
  "getNeshanRoute isLatLong3 http3_down ''key'' (''35,51'', ''37,53'') MOTORCYCLE
     = Inl (AppError INTERNAL_SERVER_ERROR NESHAN_API_FAILED)"
  by (simp add: getNeshanRoute_def isLatLong3_def coords3_def http3_down_failure response_ok_def)

theorem C10_routing_failures_witness:
  "mset settled3 = mset (requests coords3)
   \<and> ((0, ''35,51''), (2, ''37,53'')) \<in> set (requests coords3)
   \<and> getNeshanRoute isLatLong3 http3_down ''key'' (''35,51'', ''37,53'') MOTORCYCLE
       = Inl (AppError INTERNAL_SERVER_ERROR NESHAN_API_FAILED)
   \<and> (\<exists>e'. calculateCostTable isLatLong3 http3_down settled3 coords3 (Some ''key'', None) MOTORCYCLE
         = Inl e')
   \<and> calculateCostTable isLatLong3 http3_down settled3 coords3 (Some [], None) MOTORCYCLE
       = Inl (PlainError NESHAN_API_KEY_NOT_FOUND)
   \<and> \<not> isLatLong3 ''north''
   \<and> getNeshanRoute isLatLong3 http3_down ''key'' (''north'', ''37,53'') MOTORCYCLE
       = Inl (AppError BAD_REQUEST ORG_DEST_VALID_ERR)
   \<and> isLatLong3 ''35,51'' \<and> isLatLong3 ''37,53''
   \<and> http3_down (route_url MOTORCYCLE ''35,51'' ''37,53'') ''key''
       = Inr \<lparr> status = 500, json = Inl TypeError \<rparr>
   \<and> \<not> response_ok \<lparr> status = 500, json = Inl TypeError \<rparr>"
proof -
  have r: "((0, ''35,51''), (2, ''37,53'')) \<in> set (requests coords3)"
    by (simp add: requests_coords3)
  have v: "\<not> isLatLong3 ''north''" "isLatLong3 ''35,51''" "isLatLong3 ''37,53''"
    by (simp_all add: isLatLong3_def coords3_def)
  have nok: "\<not> response_ok \<lparr> status = 500, json = Inl TypeError \<rparr>"
    by (simp add: response_ok_def)
  note c10 = C10_routing_failures [where isLatLong = isLatLong3 and http = http3_down
      and apiKey = "''key''" and vehicle = MOTORCYCLE and settled = settled3 and coords = coords3
      and name = None]
  from c10 [THEN conjunct1, of 0 "''35,51''" 2 "''37,53''"] mset_settled3 r getNeshanRoute_down
  have 1: "\<exists>e'. calculateCostTable isLatLong3 http3_down settled3 coords3 (Some ''key'', None)
      MOTORCYCLE = Inl e'" by blast
  from c10 [THEN conjunct2, THEN conjunct1, of "Some []"]
  have 2: "calculateCostTable isLatLong3 http3_down settled3 coords3 (Some [], None) MOTORCYCLE
      = Inl (PlainError NESHAN_API_KEY_NOT_FOUND)" by blast
  from c10 [THEN conjunct2, THEN conjunct2, THEN conjunct1, of "''north''" "''37,53''"] v(1)
  have 3: "getNeshanRoute isLatLong3 http3_down ''key'' (''north'', ''37,53'') MOTORCYCLE
      = Inl (AppError BAD_REQUEST ORG_DEST_VALID_ERR)" by blast
  from c10 [THEN conjunct2, THEN conjunct2, THEN conjunct2, of "''35,51''" "''37,53''"]
    v(2,3) http3_down_failure nok
  have "getNeshanRoute isLatLong3 http3_down ''key'' (''35,51'', ''37,53'') MOTORCYCLE
      = Inl (AppError INTERNAL_SERVER_ERROR NESHAN_API_FAILED)" by blast
  with mset_settled3 r 1 2 3 v http3_down_failure nok show ?thesis by blast
qed

end
